theory Spec2Isabelle
  imports Complex_Main "HOL-Library.AList"
begin

section \<open>Strings\<close>

text \<open>
  Python strings are modelled as \<^typ>\<open>string\<close>. The functions below are the \<open>str\<close> methods
  the program calls, restricted to the arguments it passes.
\<close>

text \<open>\<open>s.replace(old, new)\<close> for a one-character \<open>old\<close>: every occurrence is replaced.\<close>

primrec str_replace :: "string \<Rightarrow> char \<Rightarrow> string \<Rightarrow> string" where
  "str_replace [] old new = []"
| "str_replace (c # cs) old new =
     (if c = old then new @ str_replace cs old new else c # str_replace cs old new)"

text \<open>
  \<open>s.lower()\<close>: the letters \<open>A\<close> to \<open>Z\<close> become \<open>a\<close> to \<open>z\<close>; every other character is
  carried over unchanged.
\<close>

definition lower_char :: "char \<Rightarrow> char" where
  "lower_char c =
     (let n = (of_char c :: nat) in if 65 \<le> n \<and> n \<le> 90 then char_of (n + 32) else c)"

definition lower :: "string \<Rightarrow> string" where
  "lower s = map lower_char s"

text \<open>\<open>s.split(sep)\<close> for a one-character separator: the result is never empty.\<close>

primrec str_split :: "string \<Rightarrow> char \<Rightarrow> string list" where
  "str_split [] sep = [[]]"
| "str_split (c # cs) sep =
     (if c = sep then [] # str_split cs sep
      else (case str_split cs sep of
              [] \<Rightarrow> [[c]]
            | p # ps \<Rightarrow> (c # p) # ps))"

text \<open>\<open>s.endswith(suffix)\<close>, and \<open>s.endswith((suffix1, suffix2, ...))\<close> for a tuple.\<close>

definition endswith :: "string \<Rightarrow> string \<Rightarrow> bool" where
  "endswith s suf = (length suf \<le> length s \<and> drop (length s - length suf) s = suf)"

definition endswith_any :: "string \<Rightarrow> string list \<Rightarrow> bool" where
  "endswith_any s sufs = list_ex (endswith s) sufs"

text \<open>\<open>sub in s\<close>: \<open>sub\<close> occurs somewhere in \<open>s\<close>.\<close>

primrec str_contains :: "string \<Rightarrow> string \<Rightarrow> bool" where
  "str_contains [] sub = (sub = [])"
| "str_contains (c # cs) sub = (take (length sub) (c # cs) = sub \<or> str_contains cs sub)"

text \<open>\<open>s.rfind(c)\<close>: the index of the last occurrence, \<open>None\<close> for Python's \<open>-1\<close>.\<close>

primrec str_rfind :: "string \<Rightarrow> char \<Rightarrow> nat option" where
  "str_rfind [] c = None"
| "str_rfind (x # xs) c =
     (case str_rfind xs c of
        Some i \<Rightarrow> Some (Suc i)
      | None \<Rightarrow> if x = c then Some 0 else None)"

text \<open>
  \<open>os.path.splitext(p)\<close> on a bare file name (a directory entry holds no separator): the name
  is cut at its last dot, unless only dots stand before that dot; then the extension is empty.
\<close>

definition splitext :: "string \<Rightarrow> string \<times> string" where
  "splitext p =
     (case str_rfind p (CHR ''.'') of
        None \<Rightarrow> (p, [])
      | Some dotIndex \<Rightarrow>
          if list_ex (\<lambda>c. c \<noteq> CHR ''.'') (take dotIndex p)
          then (take dotIndex p, drop dotIndex p)
          else (p, []))"

section \<open>Filename normalizer\<close>

definition clean_filename :: "string \<Rightarrow> string" where
  "clean_filename filename =
     (let filename = str_replace filename (CHR '' '') [];
          filename = str_replace filename (CHR ''('') [];
          filename = str_replace filename (CHR '')'') []
      in filename)"

section \<open>Thumbnail dimensions\<close>

text \<open>
  \<open>int(x)\<close> of a float truncates toward zero. A float is modelled by the real number it
  denotes (infinities and NaN are not modelled); the rounding of a float product to the
  nearest double is the parameter \<open>fl\<close>.
\<close>

definition py_int :: "real \<Rightarrow> int" where
  "py_int x = (if x < 0 then \<lceil>x\<rceil> else \<lfloor>x\<rfloor>)"

definition float_mul :: "(real \<Rightarrow> real) \<Rightarrow> int \<Rightarrow> real \<Rightarrow> real" where
  "float_mul fl n x = fl (of_int n * x)"

text \<open>
  \<open>new_dimensions = (int(img.width * scale_factor), int(img.height * scale_factor))\<close>, the
  expression both thumbnail paths evaluate.
\<close>

definition new_dimensions :: "(real \<Rightarrow> real) \<Rightarrow> int \<Rightarrow> int \<Rightarrow> real \<Rightarrow> int \<times> int" where
  "new_dimensions fl img_width img_height scale_factor =
     (py_int (float_mul fl img_width scale_factor), py_int (float_mul fl img_height scale_factor))"

section \<open>The folder, the imaging library and the environment\<close>

text \<open>
  A path is the pair that \<open>os.path.join(folder_path, filename)\<close> joins: every path the program
  builds is an entry name under the one folder it was given.
\<close>

type_synonym path = "string \<times> string"

definition os_path_join :: "string \<Rightarrow> string \<Rightarrow> path" where
  "os_path_join folder_path filename = (folder_path, filename)"

text \<open>
  A decoded image: its size, its mode and its pixel payload (kept abstract). The arrays a
  GIF reader yields wrap the image they hold.
\<close>

datatype image = PIL_Image (width: int) (height: int) (mode: string) (pixels: nat)

datatype ndarray = Ndarray (array_image: image)

datatype resample = LANCZOS

text \<open>What a file of the folder holds.\<close>

datatype content =
    Bytes nat
  | Text string
  | Still image
  | Animation "image list" real

text \<open>
  The calls that leave the program. Whether a call to the operating system fails is decided
  by the environment, from the call and the folder's contents at that moment; whether a pure
  library call fails is decided from its arguments.
\<close>

datatype os_call =
    Listdir string
  | Remove path
  | Rename path path
  | Open_w path
  | Write path string
  | Image_open path
  | Image_save path image
  | Get_reader path
  | Reader_next path nat
  | Mimsave path "image list" real

datatype lib_call =
    Fromarray ndarray
  | Convert image string
  | Resize image "int \<times> int" "resample option"

datatype error =
    OSError os_call
  | FileNotFoundError path
  | UnidentifiedImageError path
  | ValueError lib_call
  | IndexError

record env =
  os_fails :: "os_call \<Rightarrow> (string \<times> content) list \<Rightarrow> bool"
  lib_fails :: "lib_call \<Rightarrow> bool"
  round_float :: "real \<Rightarrow> real"

text \<open>One constructor for each \<open>print\<close> of the source.\<close>

datatype message =
    Deleted path
  | Error_deleting_files error
  | Error_processing_frame error
  | Resized_and_saved_GIF path
  | Error_resizing_GIF path error
  | Error_processing_file string error
  | Error_writing_image_list error
  | Resized_and_saved path
  | Error_resizing_image string error

text \<open>The folder's entries in listing order, and the console.\<close>

record world =
  files :: "(string \<times> content) list"
  console :: "message list"

text \<open>
  A statement either raises (\<open>Inl\<close>) or returns (\<open>Inr\<close>); the world it leaves behind is kept
  in both cases.
\<close>

type_synonym 'a result = "(error + 'a) \<times> world"

definition seq :: "(world \<Rightarrow> 'a result) \<Rightarrow> ('a \<Rightarrow> world \<Rightarrow> 'b result) \<Rightarrow> world \<Rightarrow> 'b result" where
  "seq m f w = (case m w of (Inl e, w') \<Rightarrow> (Inl e, w') | (Inr a, w') \<Rightarrow> f a w')"

text \<open>\<open>try: body  except Exception as e: handler\<close>.\<close>

definition try_except :: "(world \<Rightarrow> unit result) \<Rightarrow> (error \<Rightarrow> world \<Rightarrow> world) \<Rightarrow> world \<Rightarrow> world" where
  "try_except body handler w = (case body w of (Inl e, w') \<Rightarrow> handler e w' | (Inr u, w') \<Rightarrow> w')"

definition py_print :: "message \<Rightarrow> world \<Rightarrow> world" where
  "py_print m w = w\<lparr>console := console w @ [m]\<rparr>"

subsection \<open>Operating-system calls\<close>

definition os_listdir :: "env \<Rightarrow> string \<Rightarrow> world \<Rightarrow> string list result" where
  "os_listdir E folder_path w =
     (if os_fails E (Listdir folder_path) (files w) then (Inl (OSError (Listdir folder_path)), w)
      else (Inr (map fst (files w)), w))"

definition os_remove :: "env \<Rightarrow> path \<Rightarrow> world \<Rightarrow> unit result" where
  "os_remove E p w =
     (if map_of (files w) (snd p) = None then (Inl (FileNotFoundError p), w)
      else if os_fails E (Remove p) (files w) then (Inl (OSError (Remove p)), w)
      else (Inr (), w\<lparr>files := AList.delete (snd p) (files w)\<rparr>))"

text \<open>
  A successful rename replaces an entry that already has the new name. The empty name and
  the names \<open>.\<close> and \<open>..\<close> denote directories (the folder itself and its parent): a rename
  onto one of them always fails.
\<close>

definition reserved_name :: "string \<Rightarrow> bool" where
  "reserved_name n = (n = [] \<or> n = ''.'' \<or> n = ''..'')"

definition rename_entry :: "string \<Rightarrow> string \<Rightarrow> (string \<times> content) list \<Rightarrow> (string \<times> content) list" where
  "rename_entry old new fs =
     (if old = new then fs
      else map (\<lambda>(n, c). if n = old then (new, c) else (n, c)) (AList.delete new fs))"

definition os_rename :: "env \<Rightarrow> path \<Rightarrow> path \<Rightarrow> world \<Rightarrow> unit result" where
  "os_rename E old new w =
     (if map_of (files w) (snd old) = None then (Inl (FileNotFoundError old), w)
      else if reserved_name (snd new) \<or> os_fails E (Rename old new) (files w)
      then (Inl (OSError (Rename old new)), w)
      else (Inr (), w\<lparr>files := rename_entry (snd old) (snd new) (files w)\<rparr>))"

text \<open>\<open>open(p, 'w')\<close> creates the file or truncates it; \<open>f.write(s)\<close> appends to it.\<close>

definition open_w :: "env \<Rightarrow> path \<Rightarrow> world \<Rightarrow> unit result" where
  "open_w E p w =
     (if os_fails E (Open_w p) (files w) then (Inl (OSError (Open_w p)), w)
      else (Inr (), w\<lparr>files := AList.update (snd p) (Text []) (files w)\<rparr>))"

definition text_of :: "content option \<Rightarrow> string" where
  "text_of c = (case c of Some (Text t) \<Rightarrow> t | _ \<Rightarrow> [])"

definition file_write :: "env \<Rightarrow> path \<Rightarrow> string \<Rightarrow> world \<Rightarrow> unit result" where
  "file_write E p s w =
     (if os_fails E (Write p s) (files w) then (Inl (OSError (Write p s)), w)
      else (Inr (), w\<lparr>files :=
              AList.update (snd p) (Text (text_of (map_of (files w) (snd p)) @ s)) (files w)\<rparr>))"

subsection \<open>Imaging library calls\<close>

definition decode_frames :: "content \<Rightarrow> image list option" where
  "decode_frames c =
     (case c of Still img \<Rightarrow> Some [img] | Animation frames d \<Rightarrow> Some frames | _ \<Rightarrow> None)"

definition image_open :: "env \<Rightarrow> path \<Rightarrow> world \<Rightarrow> image result" where
  "image_open E p w =
     (case map_of (files w) (snd p) of
        None \<Rightarrow> (Inl (FileNotFoundError p), w)
      | Some c \<Rightarrow>
          (case decode_frames c of
             Some (img # rest) \<Rightarrow>
               if os_fails E (Image_open p) (files w) then (Inl (OSError (Image_open p)), w)
               else (Inr img, w)
           | _ \<Rightarrow> (Inl (UnidentifiedImageError p), w)))"

definition image_save :: "env \<Rightarrow> image \<Rightarrow> path \<Rightarrow> world \<Rightarrow> unit result" where
  "image_save E img p w =
     (if os_fails E (Image_save p img) (files w) then (Inl (OSError (Image_save p img)), w)
      else (Inr (), w\<lparr>files := AList.update (snd p) (Still img) (files w)\<rparr>))"

definition image_fromarray :: "env \<Rightarrow> ndarray \<Rightarrow> error + image" where
  "image_fromarray E a =
     (if lib_fails E (Fromarray a) then Inl (ValueError (Fromarray a)) else Inr (array_image a))"

definition image_convert :: "env \<Rightarrow> image \<Rightarrow> string \<Rightarrow> error + image" where
  "image_convert E img m =
     (if lib_fails E (Convert img m) then Inl (ValueError (Convert img m))
      else Inr (PIL_Image (width img) (height img) m (pixels img)))"

definition image_resize :: "env \<Rightarrow> image \<Rightarrow> int \<times> int \<Rightarrow> resample option \<Rightarrow> error + image" where
  "image_resize E img dims r =
     (if lib_fails E (Resize img dims r) then Inl (ValueError (Resize img dims r))
      else Inr (PIL_Image (fst dims) (snd dims) (mode img) (pixels img)))"

text \<open>
  \<open>imageio.get_reader(p)\<close> opens a lazy reader over the frames of the file; the frames are
  decoded one at a time while the \<open>for\<close> statement iterates (\<open>Reader_next\<close>).
\<close>

definition get_reader :: "env \<Rightarrow> path \<Rightarrow> world \<Rightarrow> ndarray list result" where
  "get_reader E p w =
     (case map_of (files w) (snd p) of
        None \<Rightarrow> (Inl (FileNotFoundError p), w)
      | Some c \<Rightarrow>
          (case decode_frames c of
             None \<Rightarrow> (Inl (UnidentifiedImageError p), w)
           | Some frames \<Rightarrow>
               if os_fails E (Get_reader p) (files w) then (Inl (OSError (Get_reader p)), w)
               else (Inr (map Ndarray frames), w)))"

definition imageio_mimsave :: "env \<Rightarrow> path \<Rightarrow> image list \<Rightarrow> real \<Rightarrow> world \<Rightarrow> unit result" where
  "imageio_mimsave E p frames duration w =
     (if os_fails E (Mimsave p frames duration) (files w)
      then (Inl (OSError (Mimsave p frames duration)), w)
      else (Inr (), w\<lparr>files := AList.update (snd p) (Animation frames duration) (files w)\<rparr>))"

section \<open>Thumbnail cleanup\<close>

text \<open>The \<open>for\<close> loop of \<open>delete_thumb_files\<close>, over the names \<open>os.listdir\<close> returned.\<close>

fun delete_loop :: "env \<Rightarrow> string \<Rightarrow> string list \<Rightarrow> world \<Rightarrow> unit result" where
  "delete_loop E folder_path [] w = (Inr (), w)"
| "delete_loop E folder_path (filename # rest) w =
     (if str_contains filename ''_thumb'' then
        (let file_path = os_path_join folder_path filename
         in case os_remove E file_path w of
              (Inl e, w') \<Rightarrow> (Inl e, w')
            | (Inr u, w') \<Rightarrow> delete_loop E folder_path rest (py_print (Deleted file_path) w'))
      else delete_loop E folder_path rest w)"

definition delete_thumb_files :: "env \<Rightarrow> string \<Rightarrow> world \<Rightarrow> world" where
  "delete_thumb_files E folder_path w =
     try_except
       (seq (os_listdir E folder_path) (\<lambda>names. delete_loop E folder_path names))
       (\<lambda>e. py_print (Error_deleting_files e))
       w"

section \<open>Animated image thumbnailer\<close>

text \<open>The body of the inner \<open>try\<close>: one frame is converted and resized.\<close>

definition process_frame :: "env \<Rightarrow> ndarray \<Rightarrow> real \<Rightarrow> error + image" where
  "process_frame E frame scale_factor =
     (case image_fromarray E frame of
        Inl e \<Rightarrow> Inl e
      | Inr img \<Rightarrow>
          (case image_convert E img ''RGB'' of
             Inl e \<Rightarrow> Inl e
           | Inr img \<Rightarrow>
               (let dims = new_dimensions (round_float E) (width img) (height img) scale_factor
                in image_resize E img dims (Some LANCZOS))))"

text \<open>
  \<open>for frame in reader\<close>: fetching frame number \<open>i\<close> from the reader stands outside the inner
  \<open>try\<close>, so a failure there leaves the loop; a failure of the body is printed and the frame
  is skipped.
\<close>

fun frames_loop ::
  "env \<Rightarrow> path \<Rightarrow> real \<Rightarrow> nat \<Rightarrow> ndarray list \<Rightarrow> image list \<Rightarrow> world \<Rightarrow> image list result" where
  "frames_loop E img_path scale_factor i [] resized_frames w = (Inr resized_frames, w)"
| "frames_loop E img_path scale_factor i (frame # rest) resized_frames w =
     (if os_fails E (Reader_next img_path i) (files w)
      then (Inl (OSError (Reader_next img_path i)), w)
      else (case process_frame E frame scale_factor of
              Inl e \<Rightarrow>
                frames_loop E img_path scale_factor (Suc i) rest resized_frames
                  (py_print (Error_processing_frame e) w)
            | Inr resized_frame \<Rightarrow>
                frames_loop E img_path scale_factor (Suc i) rest
                  (resized_frames @ [resized_frame]) w))"

definition resize_gif :: "env \<Rightarrow> path \<Rightarrow> path \<Rightarrow> real \<Rightarrow> world \<Rightarrow> world" where
  "resize_gif E img_path new_file_path scale_factor w =
     try_except
       (seq (get_reader E img_path) (\<lambda>reader.
        seq (frames_loop E img_path scale_factor 0 reader []) (\<lambda>resized_frames.
        seq (imageio_mimsave E new_file_path resized_frames (1 / 10)) (\<lambda>u w'.
          (Inr (), py_print (Resized_and_saved_GIF new_file_path) w')))))
       (\<lambda>e. py_print (Error_resizing_GIF img_path e))
       w"

section \<open>Static image thumbnailer\<close>

text \<open>The \<open>else\<close> branch of the thumbnail pass (\<open>with Image.open(img_path) as img: ...\<close>).\<close>

definition resize_static :: "env \<Rightarrow> path \<Rightarrow> path \<Rightarrow> real \<Rightarrow> world \<Rightarrow> unit result" where
  "resize_static E img_path new_file_path scale_factor =
     seq (image_open E img_path) (\<lambda>img w.
       (let dims = new_dimensions (round_float E) (width img) (height img) scale_factor
        in case image_resize E img dims None of
             Inl e \<Rightarrow> (Inl e, w)
           | Inr img \<Rightarrow>
               seq (image_save E img new_file_path) (\<lambda>u w'.
                 (Inr (), py_print (Resized_and_saved new_file_path) w')) w))"

section \<open>Normalize and catalog\<close>

text \<open>The dictionary \<open>image_formats\<close>, in insertion order.\<close>

type_synonym catalog = "(string \<times> string list) list"

definition image_formats_init :: catalog where
  "image_formats_init = [(''png'', []), (''jpg'', []), (''jpeg'', []), (''gif'', [])]"

definition dict_has_key :: "catalog \<Rightarrow> string \<Rightarrow> bool" where
  "dict_has_key d k = (map_of d k \<noteq> None)"

definition dict_append :: "catalog \<Rightarrow> string \<Rightarrow> string \<Rightarrow> catalog" where
  "dict_append d k x = map (\<lambda>(k', v). if k' = k then (k', v @ [x]) else (k', v)) d"

text \<open>\<open>xs[-1]\<close> raises \<open>IndexError\<close> on an empty list.\<close>

definition py_last :: "'a list \<Rightarrow> error + 'a" where
  "py_last xs = (if xs = [] then Inl IndexError else Inr (last xs))"

text \<open>The body of the \<open>try\<close> of the first loop of \<open>resize_images_in_folder\<close>.\<close>

definition catalog_entry :: "env \<Rightarrow> string \<Rightarrow> string \<Rightarrow> catalog \<Rightarrow> world \<Rightarrow> catalog result" where
  "catalog_entry E folder_path filename image_formats w =
     (let cleaned_filename = clean_filename filename;
          old_file_path = os_path_join folder_path filename;
          new_file_path = os_path_join folder_path cleaned_filename
      in case (if old_file_path \<noteq> new_file_path
               then os_rename E old_file_path new_file_path w else (Inr (), w)) of
           (Inl e, w') \<Rightarrow> (Inl e, w')
         | (Inr u, w') \<Rightarrow>
             (case py_last (str_split cleaned_filename (CHR ''.'')) of
                Inl e \<Rightarrow> (Inl e, w')
              | Inr part \<Rightarrow>
                  (let file_extension = lower part
                   in if dict_has_key image_formats file_extension
                      then (Inr (dict_append image_formats file_extension cleaned_filename), w')
                      else (Inr image_formats, w'))))"

fun catalog_loop :: "env \<Rightarrow> string \<Rightarrow> string list \<Rightarrow> catalog \<Rightarrow> world \<Rightarrow> catalog \<times> world" where
  "catalog_loop E folder_path [] image_formats w = (image_formats, w)"
| "catalog_loop E folder_path (filename # rest) image_formats w =
     (case catalog_entry E folder_path filename image_formats w of
        (Inl e, w') \<Rightarrow>
          catalog_loop E folder_path rest image_formats
            (py_print (Error_processing_file filename e) w')
      | (Inr image_formats', w') \<Rightarrow> catalog_loop E folder_path rest image_formats' w')"

subsection \<open>The manifest\<close>

definition newline :: string where
  "newline = [CHR 0x0A]"

fun write_files :: "env \<Rightarrow> path \<Rightarrow> string list \<Rightarrow> world \<Rightarrow> unit result" where
  "write_files E f [] w = (Inr (), w)"
| "write_files E f (file # rest) w =
     seq (file_write E f (''- '' @ file @ newline)) (\<lambda>u. write_files E f rest) w"

fun write_formats :: "env \<Rightarrow> path \<Rightarrow> catalog \<Rightarrow> world \<Rightarrow> unit result" where
  "write_formats E f [] w = (Inr (), w)"
| "write_formats E f ((format, file_list) # rest) w =
     seq (file_write E f (''Format: '' @ format @ newline)) (\<lambda>u.
     seq (write_files E f file_list) (\<lambda>u.
     seq (file_write E f newline) (\<lambda>u. write_formats E f rest))) w"

definition write_image_list :: "env \<Rightarrow> string \<Rightarrow> catalog \<Rightarrow> world \<Rightarrow> world" where
  "write_image_list E folder_path image_formats w =
     (let f = os_path_join folder_path ''image_list.txt''
      in try_except
           (seq (open_w E f) (\<lambda>u. write_formats E f image_formats))
           (\<lambda>e. py_print (Error_writing_image_list e))
           w)"

section \<open>Thumbnail pass and orchestrator\<close>

definition recognized :: "string \<Rightarrow> bool" where
  "recognized filename = endswith_any (lower filename) [''.png'', ''.jpg'', ''.jpeg'', ''.gif'']"

definition thumb_name :: "string \<Rightarrow> string" where
  "thumb_name filename = (case splitext filename of (name, ext) \<Rightarrow> name @ ''_thumb'' @ ext)"

fun thumb_loop :: "env \<Rightarrow> string \<Rightarrow> real \<Rightarrow> string list \<Rightarrow> world \<Rightarrow> world" where
  "thumb_loop E folder_path scale_factor [] w = w"
| "thumb_loop E folder_path scale_factor (filename # rest) w =
     (if recognized filename then
        (let img_path = os_path_join folder_path filename;
             new_filename = thumb_name filename;
             new_file_path = os_path_join folder_path new_filename
         in thumb_loop E folder_path scale_factor rest
              (try_except
                 (if endswith (lower filename) ''.gif''
                  then (\<lambda>w. (Inr (), resize_gif E img_path new_file_path scale_factor w))
                  else resize_static E img_path new_file_path scale_factor)
                 (\<lambda>e. py_print (Error_resizing_image filename e))
                 w))
      else thumb_loop E folder_path scale_factor rest w)"

text \<open>
  \<open>resize_images_in_folder(folder_path, scale_factor=0.25)\<close>. \<open>None\<close> stands for a call
  that leaves the scale factor out. The two directory listings of this function stand
  outside every \<open>try\<close>: when one fails, the error is raised to the caller (\<open>Inl\<close>).
\<close>

definition resize_images_in_folder :: "env \<Rightarrow> string \<Rightarrow> real option \<Rightarrow> world \<Rightarrow> unit result" where
  "resize_images_in_folder E folder_path scale_arg w =
     (let scale_factor = (case scale_arg of None \<Rightarrow> 25 / 100 | Some s \<Rightarrow> s);
          image_formats = image_formats_init;
          w = delete_thumb_files E folder_path w
      in seq (os_listdir E folder_path) (\<lambda>names w.
           (let (image_formats, w) = catalog_loop E folder_path names image_formats w;
                w = write_image_list E folder_path image_formats w
            in seq (os_listdir E folder_path) (\<lambda>names w.
                 (Inr (), thumb_loop E folder_path scale_factor names w)) w)) w)"

section \<open>Sample environments and folders\<close>

text \<open>An environment in which no call fails and float products are exact.\<close>

definition env_ok :: env where
  "env_ok = \<lparr>os_fails = (\<lambda>c fs. False), lib_fails = (\<lambda>c. False), round_float = (\<lambda>x. x)\<rparr>"

text \<open>A folder that cannot be listed (it does not exist, say); nothing else fails.\<close>

definition env_unlistable :: env where
  "env_unlistable =
     \<lparr>os_fails = (\<lambda>c fs. case c of Listdir d \<Rightarrow> True | _ \<Rightarrow> False),
      lib_fails = (\<lambda>c. False), round_float = (\<lambda>x. x)\<rparr>"

text \<open>An environment in which one entry, \<open>a_thumb.png\<close>, cannot be removed.\<close>

definition env_locked :: env where
  "env_locked =
     \<lparr>os_fails = (\<lambda>c fs. c = Remove (''D'', ''a_thumb.png'')),
      lib_fails = (\<lambda>c. False), round_float = (\<lambda>x. x)\<rparr>"

definition empty_folder :: world where
  "empty_folder = \<lparr>files = [], console = []\<rparr>"

definition two_thumbs :: world where
  "two_thumbs =
     \<lparr>files = [(''a_thumb.png'', Still (PIL_Image 2 2 ''RGB'' 5)),
               (''b_thumb.png'', Still (PIL_Image 2 2 ''RGB'' 6))],
      console = []\<rparr>"


section \<open>Surviving frames\<close>

text \<open>
  The frames of a reader that the body of the inner \<open>try\<close> converts and resizes without an
  error, resized, in the reader's order; and the errors of the other frames.
\<close>

definition surviving_frames :: "env \<Rightarrow> ndarray list \<Rightarrow> real \<Rightarrow> image list" where
  "surviving_frames E reader scale_factor =
     List.map_filter
       (\<lambda>frame. case process_frame E frame scale_factor of Inl e \<Rightarrow> None | Inr img \<Rightarrow> Some img)
       reader"

definition frame_errors :: "env \<Rightarrow> ndarray list \<Rightarrow> real \<Rightarrow> error list" where
  "frame_errors E reader scale_factor =
     List.map_filter
       (\<lambda>frame. case process_frame E frame scale_factor of Inl e \<Rightarrow> Some e | Inr img \<Rightarrow> None)
       reader"

text \<open>
  An environment in which converting a frame with pixel payload 2 fails, and a folder with a
  three-frame GIF (source frame duration 0.5) and a file that is not an image.
\<close>

definition env_bad_frame :: env where
  "env_bad_frame =
     \<lparr>os_fails = (\<lambda>c fs. False),
      lib_fails = (\<lambda>c. case c of Convert img m \<Rightarrow> pixels img = 2 | _ \<Rightarrow> False),
      round_float = (\<lambda>x. x)\<rparr>"

definition sample_gifs :: world where
  "sample_gifs =
     \<lparr>files = [(''clip.gif'', Animation [PIL_Image 8 4 ''P'' 3, PIL_Image 8 4 ''P'' 2,
                                         PIL_Image 8 4 ''P'' 4] (1 / 2)),
               (''broken.gif'', Bytes 0)],
      console = []\<rparr>"

section \<open>Extensions and the catalog, as the specification words them\<close>

text \<open>
  The extension of a cleaned name: the substring after its last dot, lower-cased (the whole
  name, lower-cased, when it holds no dot).
\<close>

definition extension_of :: "string \<Rightarrow> string" where
  "extension_of name =
     lower (case str_rfind name (CHR ''.'') of None \<Rightarrow> name | Some i \<Rightarrow> drop (Suc i) name)"

definition formats :: "string list" where
  "formats = [''png'', ''jpg'', ''jpeg'', ''gif'']"

text \<open>
  The catalog of a listing: under each format, the cleaned names with that extension, in
  listing order.
\<close>

definition catalog_of :: "string list \<Rightarrow> catalog" where
  "catalog_of names =
     map (\<lambda>fmt. (fmt, filter (\<lambda>c. extension_of c = fmt) (map clean_filename names))) formats"

definition sample_folder :: world where
  "sample_folder =
     \<lparr>files = [(''photo.png'', Still (PIL_Image 10 7 ''RGB'' 3)),
               (''a (1).JPG'', Still (PIL_Image 4 4 ''RGB'' 4)),
               (''notes (old).txt'', Text ''x''),
               (''clip.gif'', Animation [PIL_Image 8 4 ''P'' 5, PIL_Image 8 4 ''P'' 6] (1 / 2)),
               (''b.PNG'', Still (PIL_Image 12 8 ''RGB'' 7))],
      console = []\<rparr>"

text \<open>What one entry with cleaned name \<open>c\<close> adds to the catalog.\<close>

definition cat_add :: "catalog \<Rightarrow> string \<Rightarrow> catalog" where
  "cat_add cat c =
     (if dict_has_key cat (extension_of c) then dict_append cat (extension_of c) c else cat)"

text \<open>
  The rename of an entry fails, in the folder state \<open>fs\<close> reached when its turn comes: a
  rename is needed (the cleaned name differs) and the entry is gone, the cleaned name is
  reserved, or the operating system refuses.
\<close>

definition rename_fails :: "env \<Rightarrow> string \<Rightarrow> string \<Rightarrow> (string \<times> content) list \<Rightarrow> bool" where
  "rename_fails E folder_path filename fs =
     (clean_filename filename \<noteq> filename
      \<and> (map_of fs filename = None \<or> reserved_name (clean_filename filename)
           \<or> os_fails E (Rename (folder_path, filename)
                               (folder_path, clean_filename filename)) fs))"

text \<open>
  Of a listing, taken in order from the folder state \<open>fs\<close>: the folder after the renames that
  did not fail, the entries whose rename did not fail, and the entries whose rename failed.
\<close>

fun renamed_folder ::
  "env \<Rightarrow> string \<Rightarrow> string list \<Rightarrow> (string \<times> content) list \<Rightarrow> (string \<times> content) list" where
  "renamed_folder E folder_path [] fs = fs"
| "renamed_folder E folder_path (n # ns) fs =
     renamed_folder E folder_path ns
       (if rename_fails E folder_path n fs then fs else rename_entry n (clean_filename n) fs)"

fun processed_entries ::
  "env \<Rightarrow> string \<Rightarrow> string list \<Rightarrow> (string \<times> content) list \<Rightarrow> string list" where
  "processed_entries E folder_path [] fs = []"
| "processed_entries E folder_path (n # ns) fs =
     (if rename_fails E folder_path n fs then processed_entries E folder_path ns fs
      else n # processed_entries E folder_path ns (rename_entry n (clean_filename n) fs))"

fun skipped_entries ::
  "env \<Rightarrow> string \<Rightarrow> string list \<Rightarrow> (string \<times> content) list \<Rightarrow> string list" where
  "skipped_entries E folder_path [] fs = []"
| "skipped_entries E folder_path (n # ns) fs =
     (if rename_fails E folder_path n fs then n # skipped_entries E folder_path ns fs
      else skipped_entries E folder_path ns (rename_entry n (clean_filename n) fs))"

text \<open>The entry named in an \<open>Error processing file\<close> line.\<close>

definition error_file :: "message \<Rightarrow> string" where
  "error_file m = (case m of Error_processing_file n e \<Rightarrow> n | _ \<Rightarrow> [])"

section \<open>The manifest, as the specification words it\<close>

text \<open>
  One format's part of the manifest: the header line, one dashed line for each cataloged
  file, and a blank line.
\<close>

definition manifest_section :: "string \<Rightarrow> string list \<Rightarrow> string" where
  "manifest_section fmt file_list =
     ''Format: '' @ fmt @ newline
       @ concat (map (\<lambda>file. ''- '' @ file @ newline) file_list)
       @ newline"

definition manifest_text :: "catalog \<Rightarrow> string" where
  "manifest_text cat = concat (map (\<lambda>(fmt, file_list). manifest_section fmt file_list) cat)"

text \<open>The folder \<open>sample_folder\<close> after a complete run with the default scale factor.\<close>

definition sample_folder_done :: world where
  "sample_folder_done =
     \<lparr>files = [(''photo.png'', Still (PIL_Image 10 7 ''RGB'' 3)),
               (''a1.JPG'', Still (PIL_Image 4 4 ''RGB'' 4)),
               (''notesold.txt'', Text ''x''),
               (''clip.gif'', Animation [PIL_Image 8 4 ''P'' 5, PIL_Image 8 4 ''P'' 6] (1 / 2)),
               (''b.PNG'', Still (PIL_Image 12 8 ''RGB'' 7)),
               (''image_list.txt'',
                Text (''Format: png'' @ newline @ ''- photo.png'' @ newline @ ''- b.PNG'' @ newline
                      @ newline
                      @ ''Format: jpg'' @ newline @ ''- a1.JPG'' @ newline @ newline
                      @ ''Format: jpeg'' @ newline @ newline
                      @ ''Format: gif'' @ newline @ ''- clip.gif'' @ newline @ newline)),
               (''photo_thumb.png'', Still (PIL_Image 2 1 ''RGB'' 3)),
               (''a1_thumb.JPG'', Still (PIL_Image 1 1 ''RGB'' 4)),
               (''clip_thumb.gif'',
                Animation [PIL_Image 2 1 ''RGB'' 5, PIL_Image 2 1 ''RGB'' 6] (1 / 10)),
               (''b_thumb.PNG'', Still (PIL_Image 3 2 ''RGB'' 7))],
      console = [Resized_and_saved (''D'', ''photo_thumb.png''),
                 Resized_and_saved (''D'', ''a1_thumb.JPG''),
                 Resized_and_saved_GIF (''D'', ''clip_thumb.gif''),
                 Resized_and_saved (''D'', ''b_thumb.PNG'')]\<rparr>"

text \<open>The same folder after the normalize-and-catalog loop, and after the manifest is written.\<close>

definition sample_catalog :: catalog where
  "sample_catalog =
     [(''png'', [''photo.png'', ''b.PNG'']), (''jpg'', [''a1.JPG'']), (''jpeg'', []),
      (''gif'', [''clip.gif''])]"

definition sample_renamed :: world where
  "sample_renamed =
     \<lparr>files = [(''photo.png'', Still (PIL_Image 10 7 ''RGB'' 3)),
               (''a1.JPG'', Still (PIL_Image 4 4 ''RGB'' 4)),
               (''notesold.txt'', Text ''x''),
               (''clip.gif'', Animation [PIL_Image 8 4 ''P'' 5, PIL_Image 8 4 ''P'' 6] (1 / 2)),
               (''b.PNG'', Still (PIL_Image 12 8 ''RGB'' 7))],
      console = []\<rparr>"

definition sample_listed :: world where
  "sample_listed =
     \<lparr>files = files sample_renamed @
               [(''image_list.txt'',
                 Text (''Format: png'' @ newline @ ''- photo.png'' @ newline @ ''- b.PNG'' @ newline
                       @ newline
                       @ ''Format: jpg'' @ newline @ ''- a1.JPG'' @ newline @ newline
                       @ ''Format: jpeg'' @ newline @ newline
                       @ ''Format: gif'' @ newline @ ''- clip.gif'' @ newline @ newline))],
      console = []\<rparr>"

section \<open>The kinds of printed lines\<close>

text \<open>The lines each stage of a run can print.\<close>

definition cleanup_message :: "message \<Rightarrow> bool" where
  "cleanup_message m =
     (case m of Deleted p \<Rightarrow> True | Error_deleting_files e \<Rightarrow> True | _ \<Rightarrow> False)"

definition catalog_message :: "message \<Rightarrow> bool" where
  "catalog_message m = (case m of Error_processing_file n e \<Rightarrow> True | _ \<Rightarrow> False)"

definition manifest_message :: "message \<Rightarrow> bool" where
  "manifest_message m = (case m of Error_writing_image_list e \<Rightarrow> True | _ \<Rightarrow> False)"

definition thumbnail_message :: "message \<Rightarrow> bool" where
  "thumbnail_message m =
     (case m of
        Error_processing_frame e \<Rightarrow> True
      | Resized_and_saved_GIF p \<Rightarrow> True
      | Error_resizing_GIF p e \<Rightarrow> True
      | Resized_and_saved p \<Rightarrow> True
      | Error_resizing_image n e \<Rightarrow> True
      | _ \<Rightarrow> False)"

section \<open>Further sample folders\<close>

text \<open>A folder of two entries without a dot in their names.\<close>

definition dotless_folder :: world where
  "dotless_folder = \<lparr>files = [(''PNG'', Bytes 7), (''Makefile'', Text ''x'')], console = []\<rparr>"

text \<open>
  An environment whose GIF readers fail at their second frame, and a folder with a stale
  thumbnail.
\<close>

definition env_truncated :: env where
  "env_truncated =
     \<lparr>os_fails = (\<lambda>c fs. case c of Reader_next p i \<Rightarrow> i = 1 | _ \<Rightarrow> False),
      lib_fails = (\<lambda>c. False), round_float = (\<lambda>x. x)\<rparr>"

definition stale_folder :: world where
  "stale_folder =
     \<lparr>files = [(''a.png'', Still (PIL_Image 4 4 ''RGB'' 3)),
               (''a (1).JPG'', Still (PIL_Image 4 4 ''RGB'' 4)),
               (''old_thumb.png'', Still (PIL_Image 2 2 ''RGB'' 5))],
      console = []\<rparr>"

text \<open>
  An environment in which every rename is refused (the entries are locked, say), one in
  which no file can be opened for writing, and three small folders.
\<close>

definition env_norename :: env where
  "env_norename =
     \<lparr>os_fails = (\<lambda>c fs. case c of Rename old new \<Rightarrow> True | _ \<Rightarrow> False),
      lib_fails = (\<lambda>c. False), round_float = (\<lambda>x. x)\<rparr>"

definition env_readonly :: env where
  "env_readonly =
     \<lparr>os_fails = (\<lambda>c fs. case c of Open_w p \<Rightarrow> True | _ \<Rightarrow> False),
      lib_fails = (\<lambda>c. False), round_float = (\<lambda>x. x)\<rparr>"

definition parens_folder :: world where
  "parens_folder = \<lparr>files = [(''()'', Bytes 7), (''a.png'', Bytes 8)], console = []\<rparr>"

definition spaced_folder :: world where
  "spaced_folder = \<lparr>files = [(''a b.png'', Bytes 7), (''c.png'', Bytes 8)], console = []\<rparr>"

definition png_folder :: world where
  "png_folder = \<lparr>files = [(''png'', Bytes 7)], console = []\<rparr>"

definition p_n_g_folder :: world where
  "p_n_g_folder = \<lparr>files = [(''p n g'', Bytes 7)], console = []\<rparr>"

definition hidden_folder :: world where
  "hidden_folder = \<lparr>files = [(''.png'', Still (PIL_Image 8 4 ''RGB'' 3))], console = []\<rparr>"

section \<open>Properties of the filename normalizer\<close>

lemma str_replace_filter: "str_replace s c [] = filter (\<lambda>x. x \<noteq> c) s"
  by (induction s) auto

lemma clean_filename_filter:
  "clean_filename f = filter (\<lambda>c. c \<noteq> CHR '' '' \<and> c \<noteq> CHR ''('' \<and> c \<noteq> CHR '')'') f"
  by (auto simp: clean_filename_def str_replace_filter intro: filter_cong)

text \<open>
  Claim C3. For every filename \<open>f\<close>, \<open>clean_filename\<close> is idempotent, its result holds no
  space, no opening and no closing parenthesis, and it is \<open>f\<close> with exactly these three
  characters filtered out: every other character stays, in order.
\<close>

theorem clean_filename_normal_form:
  "clean_filename (clean_filename f) = clean_filename f
   \<and> CHR '' '' \<notin> set (clean_filename f)
   \<and> CHR ''('' \<notin> set (clean_filename f)
   \<and> CHR '')'' \<notin> set (clean_filename f)
   \<and> clean_filename f = filter (\<lambda>c. c \<noteq> CHR '' '' \<and> c \<noteq> CHR ''('' \<and> c \<noteq> CHR '')'') f"
  by (auto simp: clean_filename_filter intro: filter_cong)

theorem clean_filename_normal_form_witness:
  "clean_filename ''a (1).JPG'' = ''a1.JPG''
   \<and> clean_filename (clean_filename ''a (1).JPG'') = clean_filename ''a (1).JPG''"
  using clean_filename_normal_form [of "''a (1).JPG''"] by (simp add: clean_filename_filter)

section \<open>Properties of the thumbnail dimensions\<close>




lemma map_of_update_same: "map_of (AList.update k v al) k = Some v"
  by (simp add: update_conv')





section \<open>Errors raised to the caller\<close>

text \<open>
  Claim C1 states that no exception ever reaches the caller of \<open>resize_images_in_folder\<close>,
  also when a directory listing it performs itself fails. On a folder that cannot be listed
  the cleanup stage prints its error, and the listing of the first loop of
  \<open>resize_images_in_folder\<close>, which stands outside every \<open>try\<close>, raises to the caller.
\<close>

theorem resize_images_in_folder_raises:
  "resize_images_in_folder env_unlistable ''D'' None empty_folder =
     (Inl (OSError (Listdir ''D'')),
      \<lparr>files = [], console = [Error_deleting_files (OSError (Listdir ''D''))]\<rparr>)"
  by (simp add: resize_images_in_folder_def delete_thumb_files_def try_except_def seq_def
      os_listdir_def env_unlistable_def empty_folder_def py_print_def)

section \<open>Failure isolation in the cleanup\<close>

text \<open>
  Claim C2 states that a failed deletion does not stop the deletion of the remaining
  \<open>_thumb\<close> files. The \<open>try\<close> of \<open>delete_thumb_files\<close> encloses the whole loop: when
  \<open>a_thumb.png\<close> cannot be removed, one error is printed and \<open>b_thumb.png\<close>, whose removal
  would succeed, is never attempted and stays in the folder.
\<close>

theorem delete_thumb_files_stops_at_first_failure:
  "delete_thumb_files env_locked ''D'' two_thumbs =
     two_thumbs\<lparr>console := [Error_deleting_files (OSError (Remove (''D'', ''a_thumb.png'')))]\<rparr>
   \<and> map_of (files (delete_thumb_files env_locked ''D'' two_thumbs)) ''b_thumb.png''
       = Some (Still (PIL_Image 2 2 ''RGB'' 6))
   \<and> \<not> os_fails env_locked (Remove (''D'', ''b_thumb.png''))
          (files (delete_thumb_files env_locked ''D'' two_thumbs))"
  by (simp add: delete_thumb_files_def try_except_def seq_def os_listdir_def os_remove_def
      os_path_join_def env_locked_def two_thumbs_def py_print_def)

section \<open>Properties of the animated thumbnailer\<close>

lemma py_print_files [simp]: "files (py_print m w) = files w"
  by (simp add: py_print_def)

lemma py_print_console [simp]: "console (py_print m w) = console w @ [m]"
  by (simp add: py_print_def)

lemma surviving_frames_Cons:
  "surviving_frames E (frame # rest) s =
     (case process_frame E frame s of Inl e \<Rightarrow> surviving_frames E rest s
      | Inr img \<Rightarrow> img # surviving_frames E rest s)"
  by (simp add: surviving_frames_def split: sum.splits)

lemma frame_errors_Cons:
  "frame_errors E (frame # rest) s =
     (case process_frame E frame s of Inl e \<Rightarrow> e # frame_errors E rest s
      | Inr img \<Rightarrow> frame_errors E rest s)"
  by (simp add: frame_errors_def split: sum.splits)

lemma frames_loop_all_fetched:
  assumes "\<forall>j < length reader. \<not> os_fails E (Reader_next p (i + j)) (files w)"
  shows "frames_loop E p s i reader acc w =
           (Inr (acc @ surviving_frames E reader s),
            w\<lparr>console := console w @ map Error_processing_frame (frame_errors E reader s)\<rparr>)"
  using assms
proof (induction reader arbitrary: i acc w)
  case Nil
  then show ?case by (simp add: surviving_frames_def frame_errors_def)
next
  case (Cons frame rest)
  from Cons.prems have here: "\<not> os_fails E (Reader_next p i) (files w)" by force
  from Cons.prems have later: "\<forall>j < length rest. \<not> os_fails E (Reader_next p (Suc i + j)) (files w)"
    by force
  show ?case
  proof (cases "process_frame E frame s")
    case (Inl e)
    have "\<forall>j < length rest. \<not> os_fails E (Reader_next p (Suc i + j))
             (files (py_print (Error_processing_frame e) w))"
      using later by simp
    from Cons.IH [OF this] Inl here show ?thesis
      by (simp add: surviving_frames_Cons frame_errors_Cons py_print_def)
  next
    case (Inr img)
    from Cons.IH [OF later] Inr here show ?thesis
      by (simp add: surviving_frames_Cons frame_errors_Cons)
  qed
qed


lemma get_reader_world: "get_reader E p w = (r, w1) \<Longrightarrow> w1 = w"
  by (auto simp: get_reader_def split: option.splits if_splits)


lemma resize_gif_decoded:
  assumes "get_reader E p w = (Inr reader, w1)"
    and "\<forall>j < length reader. \<not> os_fails E (Reader_next p j) (files w)"
    and "\<not> os_fails E (Mimsave q (surviving_frames E reader s) (1 / 10)) (files w)"
  shows "resize_gif E p q s w =
           w\<lparr>files := AList.update (snd q) (Animation (surviving_frames E reader s) (1 / 10)) (files w),
             console := console w @ map Error_processing_frame (frame_errors E reader s)
                          @ [Resized_and_saved_GIF q]\<rparr>"
proof -
  have w1: "w1 = w" using assms(1) by (rule get_reader_world)
  have loop: "frames_loop E p s 0 reader [] w =
           (Inr (surviving_frames E reader s),
            w\<lparr>console := console w @ map Error_processing_frame (frame_errors E reader s)\<rparr>)"
    using frames_loop_all_fetched [of reader E p 0 w s "[]"] assms(2) by simp
  show ?thesis
    using assms(1,3) w1
    by (simp add: resize_gif_def try_except_def seq_def loop imageio_mimsave_def py_print_def)
qed

lemma frames_loop_fetch_fails:
  "os_fails E (Reader_next p i) (files w) \<Longrightarrow>
   frames_loop E p s i (frame # rest) acc w = (Inl (OSError (Reader_next p i)), w)"
  by simp




lemma surviving_frames_append:
  "surviving_frames E (xs @ ys) s = surviving_frames E xs s @ surviving_frames E ys s"
  by (simp add: surviving_frames_def map_filter_def)

lemma frame_errors_append:
  "frame_errors E (xs @ ys) s = frame_errors E xs s @ frame_errors E ys s"
  by (simp add: frame_errors_def map_filter_def)

lemma all_frames_survive:
  assumes "\<forall>fr \<in> set frs. \<exists>out. process_frame E (Ndarray fr) s = Inr out"
  shows "length (surviving_frames E (map Ndarray frs) s) = length frs
       \<and> frame_errors E (map Ndarray frs) s = []"
  using assms
  by (induction frs) (auto simp: surviving_frames_Cons frame_errors_Cons surviving_frames_def
      frame_errors_def)

text \<open>
  Failures in the body of the inner \<open>try\<close> are isolated. For a source GIF of \<open>n\<close> frames
  that the reader all yields, of which exactly one fails in that body (array to image,
  conversion to RGB, resize), whatever the source's frame duration \<open>d\<close>: when the encoder
  does not fail on the other frames, the failure is printed, the frame is dropped, and the
  output holds the other \<open>n - 1\<close> frames with frame duration 0.1.
\<close>

theorem resize_gif_inner_failure_isolated:
  assumes "map_of (files w) (snd p) = Some (Animation (xs @ bad # ys) d)"
    and "\<not> os_fails E (Get_reader p) (files w)"
    and "\<forall>j < length (xs @ bad # ys). \<not> os_fails E (Reader_next p j) (files w)"
    and "\<not> os_fails E (Mimsave q (surviving_frames E (map Ndarray (xs @ ys)) s) (1 / 10)) (files w)"
    and "process_frame E (Ndarray bad) s = Inl e"
    and "\<forall>fr \<in> set (xs @ ys). \<exists>out. process_frame E (Ndarray fr) s = Inr out"
  shows "\<exists>out. map_of (files (resize_gif E p q s w)) (snd q) = Some (Animation out (1 / 10))
           \<and> length out = length (xs @ bad # ys) - 1
           \<and> out = surviving_frames E (map Ndarray (xs @ ys)) s
           \<and> console (resize_gif E p q s w)
               = console w @ [Error_processing_frame e, Resized_and_saved_GIF q]"
proof -
  let ?reader = "map Ndarray (xs @ bad # ys)"
  have rd: "get_reader E p w = (Inr ?reader, w)"
    using assms(1,2) by (simp add: get_reader_def decode_frames_def)
  have xs: "length (surviving_frames E (map Ndarray xs) s) = length xs
       \<and> frame_errors E (map Ndarray xs) s = []"
    using assms(6) by (intro all_frames_survive) simp
  have ys: "length (surviving_frames E (map Ndarray ys) s) = length ys
       \<and> frame_errors E (map Ndarray ys) s = []"
    using assms(6) by (intro all_frames_survive) simp
  have surv: "surviving_frames E ?reader s = surviving_frames E (map Ndarray (xs @ ys)) s"
    using assms(5) by (simp add: surviving_frames_append surviving_frames_Cons)
  have len: "length (surviving_frames E ?reader s) = length (xs @ bad # ys) - 1"
    using xs ys assms(5) by (simp add: surviving_frames_append surviving_frames_Cons)
  have errs: "frame_errors E ?reader s = [e]"
    using xs ys assms(5) by (simp add: frame_errors_append frame_errors_Cons)
  have fetched: "\<forall>j < length ?reader. \<not> os_fails E (Reader_next p j) (files w)"
    using assms(3) by simp
  have saved: "\<not> os_fails E (Mimsave q (surviving_frames E ?reader s) (1 / 10)) (files w)"
    using assms(4) unfolding surv by simp
  have run: "resize_gif E p q s w =
           w\<lparr>files := AList.update (snd q) (Animation (surviving_frames E ?reader s) (1 / 10)) (files w),
             console := console w @ map Error_processing_frame (frame_errors E ?reader s)
                          @ [Resized_and_saved_GIF q]\<rparr>"
    using rd fetched saved by (rule resize_gif_decoded)
  show ?thesis
    unfolding run using len surv errs by (simp add: map_of_update_same)
qed

theorem resize_gif_inner_failure_isolated_witness:
  "map_of (files (resize_gif env_bad_frame (''D'', ''clip.gif'') (''D'', ''clip_thumb.gif'') (1 / 4) sample_gifs))
        ''clip_thumb.gif''
     = Some (Animation [PIL_Image 2 1 ''RGB'' 3, PIL_Image 2 1 ''RGB'' 4] (1 / 10))
   \<and> console (resize_gif env_bad_frame (''D'', ''clip.gif'') (''D'', ''clip_thumb.gif'') (1 / 4) sample_gifs)
     = [Error_processing_frame (ValueError (Convert (PIL_Image 8 4 ''P'' 2) ''RGB'')),
        Resized_and_saved_GIF (''D'', ''clip_thumb.gif'')]"
proof -
  have src: "map_of (files sample_gifs) (snd (''D'', ''clip.gif''))
      = Some (Animation ([PIL_Image 8 4 ''P'' 3] @ PIL_Image 8 4 ''P'' 2 # [PIL_Image 8 4 ''P'' 4]) (1 / 2))"
    by (simp add: sample_gifs_def)
  have ok: "\<forall>c fs. \<not> os_fails env_bad_frame c fs" by (simp add: env_bad_frame_def)
  have bad: "process_frame env_bad_frame (Ndarray (PIL_Image 8 4 ''P'' 2)) (1 / 4)
      = Inl (ValueError (Convert (PIL_Image 8 4 ''P'' 2) ''RGB''))"
    by (simp add: process_frame_def image_fromarray_def image_convert_def env_bad_frame_def)
  have good: "\<forall>fr \<in> set ([PIL_Image 8 4 ''P'' 3] @ [PIL_Image 8 4 ''P'' 4]).
      \<exists>out. process_frame env_bad_frame (Ndarray fr) (1 / 4) = Inr out"
    by (simp add: process_frame_def image_fromarray_def image_convert_def image_resize_def
        env_bad_frame_def Let_def)
  have surv: "surviving_frames env_bad_frame
        [Ndarray (PIL_Image 8 4 ''P'' 3), Ndarray (PIL_Image 8 4 ''P'' 4)] (1 / 4)
      = [PIL_Image 2 1 ''RGB'' 3, PIL_Image 2 1 ''RGB'' 4]"
    by (simp add: surviving_frames_def process_frame_def image_fromarray_def
        image_convert_def image_resize_def new_dimensions_def py_int_def float_mul_def
        env_bad_frame_def)
  have empty: "console sample_gifs = []" by (simp add: sample_gifs_def)
  show ?thesis
    using resize_gif_inner_failure_isolated [OF src, of env_bad_frame "(''D'', ''clip_thumb.gif'')"
        "1 / 4" "ValueError (Convert (PIL_Image 8 4 ''P'' 2) ''RGB'')"] ok bad good
    by (simp add: surv empty)
qed

text \<open>
  Claim C7 states that a frame's decode failure is caught and the frame dropped, so that a
  GIF of \<open>n\<close> frames with one corrupt frame gives an output of \<open>n - 1\<close> frames. The frames
  are decoded by the reader while the \<open>for\<close> statement fetches them, outside the inner
  \<open>try\<close>: when the reader cannot decode the second of three frames, the whole file is
  aborted with one printed error and no output is written.
\<close>

theorem resize_gif_aborts_on_undecodable_frame:
  "resize_gif env_truncated (''D'', ''clip.gif'') (''D'', ''clip_thumb.gif'') (1 / 4) sample_gifs
     = sample_gifs\<lparr>console :=
         [Error_resizing_GIF (''D'', ''clip.gif'') (OSError (Reader_next (''D'', ''clip.gif'') 1))]\<rparr>
   \<and> map_of (files (resize_gif env_truncated (''D'', ''clip.gif'') (''D'', ''clip_thumb.gif'')
                      (1 / 4) sample_gifs)) ''clip_thumb.gif''
       = None"
  by code_simp

section \<open>Properties of the normalize-and-catalog stage\<close>

subsection \<open>The extension of a name\<close>

lemma str_split_nonempty: "str_split s sep \<noteq> []"
  by (induction s) (auto split: list.splits)

lemma str_split_no_sep: "str_rfind s sep = None \<Longrightarrow> str_split s sep = [s]"
  by (induction s) (auto split: option.splits if_splits)

lemma str_split_has_sep: "str_rfind s sep = Some i \<Longrightarrow> \<exists>p q qs. str_split s sep = p # q # qs"
proof (induction s arbitrary: i)
  case Nil
  then show ?case by simp
next
  case (Cons c cs)
  show ?case
  proof (cases "str_rfind cs sep")
    case None
    with Cons.prems have "c = sep" by (simp split: if_splits)
    then show ?thesis
      using str_split_nonempty [of cs sep] by (cases "str_split cs sep") auto
  next
    case (Some j)
    from Cons.IH [OF Some] obtain p q qs where "str_split cs sep = p # q # qs" by blast
    then show ?thesis by auto
  qed
qed

lemma last_str_split:
  "last (str_split s sep) = (case str_rfind s sep of None \<Rightarrow> s | Some i \<Rightarrow> drop (Suc i) s)"
proof (induction s)
  case Nil
  then show ?case by simp
next
  case (Cons c cs)
  show ?case
  proof (cases "str_rfind cs sep")
    case None
    then show ?thesis by (simp add: str_split_no_sep)
  next
    case (Some j)
    from str_split_has_sep [OF Some] obtain p q qs where sp: "str_split cs sep = p # q # qs"
      by blast
    with Cons.IH Some show ?thesis by simp
  qed
qed

lemma extension_computed:
  "py_last (str_split c (CHR ''.'')) = Inr part \<Longrightarrow> lower part = extension_of c"
  by (simp add: py_last_def str_split_nonempty last_str_split extension_of_def split: if_splits)

lemma py_last_str_split: "\<exists>part. py_last (str_split c sep) = Inr part"
  by (simp add: py_last_def str_split_nonempty)


subsection \<open>Renaming and cataloging\<close>

lemma map_fst_rename_entry:
  "old \<noteq> new \<Longrightarrow>
   map fst (rename_entry old new fs)
     = map (\<lambda>n. if n = old then new else n) (filter (\<lambda>n. n \<noteq> new) (map fst fs))"
  by (induction fs) (auto simp: rename_entry_def)

lemma names_rename_entry:
  assumes "old \<in> fst ` set fs"
  shows "fst ` set (rename_entry old new fs) = (fst ` set fs - {old}) \<union> {new}"
proof (cases "old = new")
  case True
  then show ?thesis using assms by (auto simp: rename_entry_def)
next
  case False
  have "fst ` set (rename_entry old new fs) = set (map fst (rename_entry old new fs))" by simp
  also have "\<dots> = (\<lambda>n. if n = old then new else n) ` {n \<in> fst ` set fs. n \<noteq> new}"
    unfolding map_fst_rename_entry [OF False] by auto
  also have "\<dots> = (fst ` set fs - {old}) \<union> {new}"
    using assms False by auto
  finally show ?thesis .
qed

lemma map_of_keyed: "map_of (map (\<lambda>k. (k, f k)) ks) e = (if e \<in> set ks then Some (f e) else None)"
  by (induction ks) auto

lemma cat_add_keyed:
  "cat_add (map (\<lambda>k. (k, f k)) ks) c
     = map (\<lambda>k. (k, f k @ filter (\<lambda>c. extension_of c = k) [c])) ks"
  by (auto simp: cat_add_def dict_has_key_def dict_append_def map_of_keyed)

lemma foldl_cat_add:
  "foldl cat_add (map (\<lambda>k. (k, f k)) ks) cs
     = map (\<lambda>k. (k, f k @ filter (\<lambda>c. extension_of c = k) cs)) ks"
proof (induction cs arbitrary: f)
  case Nil
  then show ?case by simp
next
  case (Cons c cs)
  have "foldl cat_add (map (\<lambda>k. (k, f k)) ks) (c # cs)
      = foldl cat_add (map (\<lambda>k. (k, f k @ filter (\<lambda>c. extension_of c = k) [c])) ks) cs"
    by (simp add: cat_add_keyed)
  also have "\<dots> = map (\<lambda>k. (k, (f k @ filter (\<lambda>c. extension_of c = k) [c])
                              @ filter (\<lambda>c. extension_of c = k) cs)) ks"
    by (rule Cons.IH)
  finally show ?case by simp
qed

lemma foldl_cat_add_init:
  "foldl cat_add image_formats_init (map clean_filename names) = catalog_of names"
proof -
  have eq: "image_formats_init = map (\<lambda>k. (k, [])) formats"
    by (simp add: image_formats_init_def formats_def)
  show ?thesis unfolding eq catalog_of_def foldl_cat_add by simp
qed

lemma catalog_entry_step:
  "catalog_entry E folder_path n cat w =
     (if rename_fails E folder_path n (files w)
      then (Inl (if map_of (files w) n = None then FileNotFoundError (folder_path, n)
                 else OSError (Rename (folder_path, n) (folder_path, clean_filename n))), w)
      else (Inr (cat_add cat (clean_filename n)),
            w\<lparr>files := rename_entry n (clean_filename n) (files w)\<rparr>))"
proof -
  obtain part where part: "py_last (str_split (clean_filename n) (CHR ''.'')) = Inr part"
    using py_last_str_split by blast
  have ext: "lower part = extension_of (clean_filename n)"
    using part by (rule extension_computed)
  show ?thesis
  proof (cases "clean_filename n = n")
    case True
    then show ?thesis
      using part ext
      by (simp add: catalog_entry_def os_path_join_def cat_add_def rename_entry_def
          rename_fails_def Let_def)
  next
    case False
    then show ?thesis
      using part ext
      by (auto simp: catalog_entry_def os_path_join_def cat_add_def os_rename_def
          rename_fails_def Let_def)
  qed
qed

lemma catalog_loop_run:
  "\<exists>w' ms. catalog_loop E folder_path ns cat w
             = (foldl cat_add cat (map clean_filename (processed_entries E folder_path ns (files w))), w')
         \<and> files w' = renamed_folder E folder_path ns (files w)
         \<and> console w' = console w @ ms
         \<and> map error_file ms = skipped_entries E folder_path ns (files w)
         \<and> list_all catalog_message ms"
proof (induction ns arbitrary: cat w)
  case Nil
  then show ?case by simp
next
  case (Cons n ns)
  show ?case
  proof (cases "rename_fails E folder_path n (files w)")
    case True
    let ?e = "if map_of (files w) n = None then FileNotFoundError (folder_path, n)
              else OSError (Rename (folder_path, n) (folder_path, clean_filename n))"
    let ?w1 = "py_print (Error_processing_file n ?e) w"
    from Cons.IH [of cat ?w1] obtain w' ms where
      "catalog_loop E folder_path ns cat ?w1
         = (foldl cat_add cat (map clean_filename (processed_entries E folder_path ns (files ?w1))), w')"
      and "files w' = renamed_folder E folder_path ns (files ?w1)"
      and "console w' = console ?w1 @ ms"
      and "map error_file ms = skipped_entries E folder_path ns (files ?w1)"
      and "list_all catalog_message ms"
      by blast
    then have "catalog_loop E folder_path (n # ns) cat w
             = (foldl cat_add cat (map clean_filename (processed_entries E folder_path (n # ns) (files w))), w')
         \<and> files w' = renamed_folder E folder_path (n # ns) (files w)
         \<and> console w' = console w @ (Error_processing_file n ?e # ms)
         \<and> map error_file (Error_processing_file n ?e # ms)
             = skipped_entries E folder_path (n # ns) (files w)
         \<and> list_all catalog_message (Error_processing_file n ?e # ms)"
      using True by (simp add: catalog_entry_step error_file_def catalog_message_def)
    then show ?thesis by blast
  next
    case False
    let ?w1 = "w\<lparr>files := rename_entry n (clean_filename n) (files w)\<rparr>"
    from Cons.IH [of "cat_add cat (clean_filename n)" ?w1] obtain w' ms where
      "catalog_loop E folder_path ns (cat_add cat (clean_filename n)) ?w1
         = (foldl cat_add (cat_add cat (clean_filename n))
              (map clean_filename (processed_entries E folder_path ns (files ?w1))), w')"
      and "files w' = renamed_folder E folder_path ns (files ?w1)"
      and "console w' = console ?w1 @ ms"
      and "map error_file ms = skipped_entries E folder_path ns (files ?w1)"
      and "list_all catalog_message ms"
      by blast
    then have "catalog_loop E folder_path (n # ns) cat w
             = (foldl cat_add cat (map clean_filename (processed_entries E folder_path (n # ns) (files w))), w')
         \<and> files w' = renamed_folder E folder_path (n # ns) (files w)
         \<and> console w' = console w @ ms
         \<and> map error_file ms = skipped_entries E folder_path (n # ns) (files w)
         \<and> list_all catalog_message ms"
      using False by (simp add: catalog_entry_step)
    then show ?thesis by blast
  qed
qed


lemma skipped_subset: "set (skipped_entries E folder_path ns fs) \<subseteq> set ns"
  by (induction ns arbitrary: fs) auto

lemma processed_subset: "set (processed_entries E folder_path ns fs) \<subseteq> set ns"
  by (induction ns arbitrary: fs) auto

lemma processed_or_skipped:
  "set (processed_entries E folder_path ns fs) \<union> set (skipped_entries E folder_path ns fs) = set ns"
  by (induction ns arbitrary: fs) auto

lemma processed_clean:
  "n \<in> set ns \<Longrightarrow> clean_filename n = n \<Longrightarrow> n \<in> set (processed_entries E folder_path ns fs)"
  by (induction ns arbitrary: fs) (auto simp: rename_fails_def)

lemma processed_filter:
  "distinct ns \<Longrightarrow>
   processed_entries E folder_path ns fs
     = filter (\<lambda>n. n \<notin> set (skipped_entries E folder_path ns fs)) ns"
proof (induction ns arbitrary: fs)
  case Nil
  then show ?case by simp
next
  case (Cons n ns)
  have out: "n \<notin> set (skipped_entries E folder_path ns fs')" for fs'
    using Cons.prems skipped_subset [of E folder_path ns fs'] by auto
  show ?case
  proof (cases "rename_fails E folder_path n fs")
    case True
    have "filter (\<lambda>m. m \<notin> set (skipped_entries E folder_path ns fs)) ns
        = filter (\<lambda>m. m \<noteq> n \<and> m \<notin> set (skipped_entries E folder_path ns fs)) ns"
      using Cons.prems by (intro filter_cong) auto
    with True Cons show ?thesis by simp
  next
    case False
    with Cons out show ?thesis by simp
  qed
qed

lemma processed_append:
  "processed_entries E folder_path (xs @ ys) fs
     = processed_entries E folder_path xs fs
       @ processed_entries E folder_path ys (renamed_folder E folder_path xs fs)"
  by (induction xs arbitrary: fs) auto

lemma skipped_append:
  "skipped_entries E folder_path (xs @ ys) fs
     = skipped_entries E folder_path xs fs
       @ skipped_entries E folder_path ys (renamed_folder E folder_path xs fs)"
  by (induction xs arbitrary: fs) auto

lemma skipped_at_turn:
  assumes "distinct (xs @ n # ys)"
  shows "n \<in> set (skipped_entries E folder_path (xs @ n # ys) fs)
           \<longleftrightarrow> rename_fails E folder_path n (renamed_folder E folder_path xs fs)"
proof -
  have "n \<notin> set (skipped_entries E folder_path xs fs)"
    using assms skipped_subset [of E folder_path xs fs] by auto
  moreover have "n \<notin> set (skipped_entries E folder_path ys fs')" for fs'
    using assms skipped_subset [of E folder_path ys fs'] by auto
  ultimately show ?thesis by (auto simp: skipped_append)
qed

lemma processed_at_turn:
  assumes "distinct (xs @ n # ys)"
  shows "n \<in> set (processed_entries E folder_path (xs @ n # ys) fs)
           \<longleftrightarrow> \<not> rename_fails E folder_path n (renamed_folder E folder_path xs fs)"
proof -
  have "n \<notin> set (processed_entries E folder_path xs fs)"
    using assms processed_subset [of E folder_path xs fs] by auto
  moreover have "n \<notin> set (processed_entries E folder_path ys fs')" for fs'
    using assms processed_subset [of E folder_path ys fs'] by auto
  ultimately show ?thesis by (auto simp: processed_append)
qed

lemma names_renamed_folder:
  assumes "distinct ns" and "set ns \<subseteq> fst ` set fs"
  shows "fst ` set (renamed_folder E folder_path ns fs)
           = (fst ` set fs - set ns)
             \<union> clean_filename ` set (processed_entries E folder_path ns fs)
             \<union> set (skipped_entries E folder_path ns fs)"
  using assms
proof (induction ns arbitrary: fs)
  case Nil
  then show ?case by simp
next
  case (Cons n ns)
  have n_in: "n \<in> fst ` set fs" and n_out: "n \<notin> set ns" and d: "distinct ns"
    using Cons.prems by auto
  show ?case
  proof (cases "rename_fails E folder_path n fs")
    case True
    have "set ns \<subseteq> fst ` set fs" using Cons.prems by simp
    from Cons.IH [OF d this] True n_in n_out show ?thesis by auto
  next
    case False
    let ?fs1 = "rename_entry n (clean_filename n) fs"
    let ?P = "processed_entries E folder_path ns ?fs1"
    have names1: "fst ` set ?fs1 = (fst ` set fs - {n}) \<union> {clean_filename n}"
      using n_in by (rule names_rename_entry)
    have sub: "set ns \<subseteq> fst ` set ?fs1"
      using Cons.prems names1 by auto
    have idem: "clean_filename (clean_filename n) = clean_filename n"
      by (simp add: clean_filename_filter)
    have reach: "clean_filename n \<in> set ns \<Longrightarrow> clean_filename n \<in> clean_filename ` set ?P"
    proof -
      assume "clean_filename n \<in> set ns"
      then have "clean_filename n \<in> set ?P" using idem by (rule processed_clean)
      then show ?thesis using idem by (metis imageI)
    qed
    from Cons.IH [OF d sub]
    have "fst ` set (renamed_folder E folder_path ns ?fs1)
        = (fst ` set ?fs1 - set ns) \<union> clean_filename ` set ?P
          \<union> set (skipped_entries E folder_path ns ?fs1)" .
    then show ?thesis
      using False reach unfolding names1 by auto
  qed
qed


text \<open>
  Claim C8, as amended. For every listed entry the computed extension is the substring
  after the last dot of the cleaned name, lower-cased (\<open>extension_of\<close>). In every
  environment the loop over the listing of a folder ends with the catalog \<open>catalog_of\<close> of
  the entries whose rename did not fail (none is needed when the cleaned name is the
  name): under each of png, jpg, jpeg and gif their cleaned names with that extension, in
  listing order, and no other name anywhere. An entry whose rename fails when its turn
  comes is skipped with one printed line, neither renamed nor cataloged; the loop goes on
  with the next entry. Afterwards the folder holds the cleaned names of the entries that
  were not skipped, cataloged or not, and the unchanged names of the skipped ones.
\<close>

theorem normalize_and_catalog:
  "(\<forall>c. \<exists>part. py_last (str_split c (CHR ''.'')) = Inr part \<and> lower part = extension_of c)
   \<and> (\<exists>w' ms.
         catalog_loop E folder_path (map fst (files w)) image_formats_init w
           = (catalog_of (processed_entries E folder_path (map fst (files w)) (files w)), w')
         \<and> files w' = renamed_folder E folder_path (map fst (files w)) (files w)
         \<and> console w' = console w @ ms
         \<and> map error_file ms = skipped_entries E folder_path (map fst (files w)) (files w)
         \<and> list_all catalog_message ms)
   \<and> (distinct (map fst (files w)) \<longrightarrow>
         processed_entries E folder_path (map fst (files w)) (files w)
           = filter (\<lambda>n. n \<notin> set (skipped_entries E folder_path (map fst (files w)) (files w)))
               (map fst (files w))
         \<and> (\<forall>xs n ys. map fst (files w) = xs @ n # ys \<longrightarrow>
               (n \<in> set (skipped_entries E folder_path (map fst (files w)) (files w))
                  \<longleftrightarrow> rename_fails E folder_path n (renamed_folder E folder_path xs (files w))))
         \<and> fst ` set (renamed_folder E folder_path (map fst (files w)) (files w))
           = clean_filename ` set (processed_entries E folder_path (map fst (files w)) (files w))
             \<union> set (skipped_entries E folder_path (map fst (files w)) (files w)))"
proof (intro conjI impI)
  show "\<forall>c. \<exists>part. py_last (str_split c (CHR ''.'')) = Inr part \<and> lower part = extension_of c"
    using py_last_str_split extension_computed by blast
next
  from catalog_loop_run [of E folder_path "map fst (files w)" image_formats_init w]
  show "\<exists>w' ms.
         catalog_loop E folder_path (map fst (files w)) image_formats_init w
           = (catalog_of (processed_entries E folder_path (map fst (files w)) (files w)), w')
         \<and> files w' = renamed_folder E folder_path (map fst (files w)) (files w)
         \<and> console w' = console w @ ms
         \<and> map error_file ms = skipped_entries E folder_path (map fst (files w)) (files w)
         \<and> list_all catalog_message ms"
    unfolding foldl_cat_add_init .
next
  assume "distinct (map fst (files w))"
  then show "processed_entries E folder_path (map fst (files w)) (files w)
           = filter (\<lambda>n. n \<notin> set (skipped_entries E folder_path (map fst (files w)) (files w)))
               (map fst (files w))"
    by (rule processed_filter)
next
  assume d: "distinct (map fst (files w))"
  show "\<forall>xs n ys. map fst (files w) = xs @ n # ys \<longrightarrow>
               (n \<in> set (skipped_entries E folder_path (map fst (files w)) (files w))
                  \<longleftrightarrow> rename_fails E folder_path n (renamed_folder E folder_path xs (files w)))"
  proof (intro allI impI)
    fix xs n ys
    assume eq: "map fst (files w) = xs @ n # ys"
    with d have "distinct (xs @ n # ys)" by simp
    from skipped_at_turn [OF this, of E folder_path "files w"]
    show "n \<in> set (skipped_entries E folder_path (map fst (files w)) (files w))
                  \<longleftrightarrow> rename_fails E folder_path n (renamed_folder E folder_path xs (files w))"
      unfolding eq .
  qed
next
  assume d: "distinct (map fst (files w))"
  have "set (map fst (files w)) \<subseteq> fst ` set (files w)" by simp
  from names_renamed_folder [OF d this, of E folder_path]
  show "fst ` set (renamed_folder E folder_path (map fst (files w)) (files w))
           = clean_filename ` set (processed_entries E folder_path (map fst (files w)) (files w))
             \<union> set (skipped_entries E folder_path (map fst (files w)) (files w))"
    by auto
qed

text \<open>
  Claim C8 as worded has every entry with a recognized extension cataloged and every
  entry with a differing cleaned name renamed. The entry \<open>()\<close> has the empty cleaned name
  and no recognized extension; its rename always fails and it keeps its name. Where the
  renames are refused, \<open>a b.png\<close> has the extension png and is not cataloged.
\<close>

theorem failed_rename_not_cataloged_nor_renamed:
  "clean_filename ''()'' \<noteq> ''()'' \<and> extension_of (clean_filename ''()'') \<notin> set formats
   \<and> map fst (files (snd (catalog_loop env_ok ''D'' (map fst (files parens_folder))
                             image_formats_init parens_folder)))
       = [''()'', ''a.png'']
   \<and> extension_of (clean_filename ''a b.png'') = ''png''
   \<and> fst (catalog_loop env_norename ''D'' (map fst (files spaced_folder)) image_formats_init
            spaced_folder)
       = [(''png'', [''c.png'']), (''jpg'', []), (''jpeg'', []), (''gif'', [])]"
  by code_simp

theorem normalize_and_catalog_witness:
  "fst (catalog_loop env_norename ''D'' (map fst (files spaced_folder)) image_formats_init
          spaced_folder)
     = [(''png'', [''c.png'']), (''jpg'', []), (''jpeg'', []), (''gif'', [])]
   \<and> skipped_entries env_norename ''D'' (map fst (files spaced_folder)) (files spaced_folder)
     = [''a b.png'']
   \<and> fst ` set (renamed_folder env_norename ''D'' (map fst (files spaced_folder)) (files spaced_folder))
     = {''a b.png'', ''c.png''}"
proof -
  have d: "distinct (map fst (files spaced_folder))" by (simp add: spaced_folder_def)
  have p: "processed_entries env_norename ''D'' (map fst (files spaced_folder)) (files spaced_folder)
      = [''c.png'']"
    by code_simp
  have s: "skipped_entries env_norename ''D'' (map fst (files spaced_folder)) (files spaced_folder)
      = [''a b.png'']"
    by code_simp
  have c: "catalog_of [''c.png''] = [(''png'', [''c.png'']), (''jpg'', []), (''jpeg'', []), (''gif'', [])]"
    by code_simp
  have cl: "clean_filename ''c.png'' = ''c.png''" by (simp add: clean_filename_filter)
  from normalize_and_catalog [of env_norename "''D''" spaced_folder] d show ?thesis
    unfolding p s c by (auto simp: cl)
qed


section \<open>Properties of the manifest\<close>

subsection \<open>What a successful write leaves in the file\<close>

lemma file_write_text:
  assumes "file_write E f s w = (Inr (), w')" and "map_of (files w) (snd f) = Some (Text t)"
  shows "map_of (files w') (snd f) = Some (Text (t @ s))"
  using assms by (auto simp: file_write_def text_of_def map_of_update_same split: if_splits)

lemma write_files_text:
  assumes "write_files E f file_list w = (Inr (), w')"
    and "map_of (files w) (snd f) = Some (Text t)"
  shows "map_of (files w') (snd f)
           = Some (Text (t @ concat (map (\<lambda>file. ''- '' @ file @ newline) file_list)))"
  using assms
proof (induction file_list arbitrary: w t)
  case Nil
  then show ?case by simp
next
  case (Cons name rest)
  from Cons.prems(1) obtain w1 where
    h: "file_write E f (''- '' @ name @ newline) w = (Inr (), w1)"
    and t: "write_files E f rest w1 = (Inr (), w')"
    by (auto simp: seq_def split: prod.splits sum.splits)
  have "map_of (files w1) (snd f) = Some (Text (t @ (''- '' @ name @ newline)))"
    using h Cons.prems(2) by (rule file_write_text)
  from Cons.IH [OF t this] show ?case by simp
qed

lemma write_formats_text:
  assumes "write_formats E f cat w = (Inr (), w')"
    and "map_of (files w) (snd f) = Some (Text t)"
  shows "map_of (files w') (snd f) = Some (Text (t @ manifest_text cat))"
  using assms
proof (induction cat arbitrary: w t)
  case Nil
  then show ?case by (simp add: manifest_text_def)
next
  case (Cons entry rest)
  obtain fmt file_list where entry: "entry = (fmt, file_list)" by (cases entry)
  from Cons.prems(1) obtain w1 w2 w3 where
    s1: "file_write E f (''Format: '' @ fmt @ newline) w = (Inr (), w1)"
    and s2: "write_files E f file_list w1 = (Inr (), w2)"
    and s3: "file_write E f newline w2 = (Inr (), w3)"
    and s4: "write_formats E f rest w3 = (Inr (), w')"
    unfolding entry by (auto simp: seq_def split: prod.splits sum.splits)
  have t1: "map_of (files w1) (snd f) = Some (Text (t @ (''Format: '' @ fmt @ newline)))"
    using s1 Cons.prems(2) by (rule file_write_text)
  have t2: "map_of (files w2) (snd f)
      = Some (Text ((t @ (''Format: '' @ fmt @ newline))
                     @ concat (map (\<lambda>file. ''- '' @ file @ newline) file_list)))"
    using s2 t1 by (rule write_files_text)
  have t3: "map_of (files w3) (snd f)
      = Some (Text (((t @ (''Format: '' @ fmt @ newline))
                     @ concat (map (\<lambda>file. ''- '' @ file @ newline) file_list)) @ newline))"
    using s3 t2 by (rule file_write_text)
  from Cons.IH [OF s4 t3] show ?case
    by (simp add: entry manifest_text_def manifest_section_def)
qed

lemma write_image_list_cases:
  "(\<exists>e. Error_writing_image_list e \<in> set (console (write_image_list E folder_path cat w)))
   \<or> map_of (files (write_image_list E folder_path cat w)) ''image_list.txt''
        = Some (Text (manifest_text cat))"
proof -
  let ?f = "os_path_join folder_path ''image_list.txt''"
  obtain r w1 where body: "seq (open_w E ?f) (\<lambda>u. write_formats E ?f cat) w = (r, w1)"
    by (cases "seq (open_w E ?f) (\<lambda>u. write_formats E ?f cat) w")
  show ?thesis
  proof (cases r)
    case (Inl e)
    then show ?thesis
      using body by (auto simp: write_image_list_def try_except_def Let_def)
  next
    case (Inr u)
    from body Inr obtain w0 where
      o: "open_w E ?f w = (Inr (), w0)" and wf: "write_formats E ?f cat w0 = (Inr (), w1)"
      by (auto simp: seq_def split: prod.splits sum.splits)
    have "map_of (files w0) (snd ?f) = Some (Text [])"
      using o by (auto simp: open_w_def map_of_update_same split: if_splits)
    from write_formats_text [OF wf this]
    have "map_of (files w1) ''image_list.txt'' = Some (Text (manifest_text cat))"
      by (simp add: os_path_join_def)
    then show ?thesis
      using body Inr by (simp add: write_image_list_def try_except_def Let_def)
  qed
qed

subsection \<open>The thumbnail pass leaves the other files alone\<close>

lemma map_of_update_other: "n \<noteq> k \<Longrightarrow> map_of (AList.update k v al) n = map_of al n"
  by (simp add: update_conv')

lemma frames_loop_world:
  "frames_loop E p s i reader acc w = (r, w') \<Longrightarrow>
   files w' = files w \<and> set (console w) \<subseteq> set (console w')"
proof (induction reader arbitrary: i acc w)
  case Nil
  then show ?case by auto
next
  case (Cons frame rest)
  show ?case
  proof (cases "os_fails E (Reader_next p i) (files w)")
    case True
    with Cons.prems show ?thesis by auto
  next
    case False
    show ?thesis
    proof (cases "process_frame E frame s")
      case (Inl e)
      with Cons.prems False
      have "frames_loop E p s (Suc i) rest acc (py_print (Error_processing_frame e) w) = (r, w')"
        by simp
      from Cons.IH [OF this] show ?thesis by auto
    next
      case (Inr img)
      with Cons.prems False
      have "frames_loop E p s (Suc i) rest (acc @ [img]) w = (r, w')" by simp
      from Cons.IH [OF this] show ?thesis by auto
    qed
  qed
qed

lemma resize_gif_world:
  "(n \<noteq> snd q \<longrightarrow> map_of (files (resize_gif E p q s w)) n = map_of (files w) n)
   \<and> set (console w) \<subseteq> set (console (resize_gif E p q s w))"
proof (cases "get_reader E p w")
  case (Pair r0 w0)
  then have w0: "w0 = w" by (rule get_reader_world)
  show ?thesis
  proof (cases r0)
    case (Inl e)
    then show ?thesis
      using Pair w0 by (auto simp: resize_gif_def try_except_def seq_def)
  next
    case (Inr reader)
    obtain r1 w1 where loop: "frames_loop E p s 0 reader [] w = (r1, w1)"
      by (cases "frames_loop E p s 0 reader [] w")
    from frames_loop_world [OF loop]
    have f1: "files w1 = files w" and c1: "set (console w) \<subseteq> set (console w1)" by auto
    show ?thesis
    proof (cases r1)
      case (Inl e)
      then show ?thesis
        using Pair w0 Inr loop f1 c1 by (auto simp: resize_gif_def try_except_def seq_def)
    next
      case (Inr resized)
      then show ?thesis
        using Pair w0 \<open>r0 = Inr reader\<close> loop f1 c1
        by (auto simp: resize_gif_def try_except_def seq_def imageio_mimsave_def
            map_of_update_other)
    qed
  qed
qed

lemma resize_static_world:
  assumes "resize_static E p q s w = (r, w')"
  shows "(n \<noteq> snd q \<longrightarrow> map_of (files w') n = map_of (files w) n)
       \<and> set (console w) \<subseteq> set (console w')"
proof (cases "image_open E p w")
  case (Pair r0 w0)
  then have w0: "w0 = w"
    by (auto simp: image_open_def split: option.splits list.splits if_splits)
  from assms Pair w0 show ?thesis
    by (cases r0)
       (auto simp: resize_static_def seq_def Let_def image_resize_def image_save_def
          map_of_update_other split: if_splits)
qed


lemma str_contains_here: "str_contains (sub @ b) sub"
proof (cases "sub @ b")
  case Nil
  then show ?thesis by simp
next
  case (Cons c cs)
  have "take (length sub) (sub @ b) = sub" by simp
  then show ?thesis unfolding Cons by simp
qed

lemma str_contains_infix: "str_contains (a @ sub @ b) sub"
  by (induction a) (auto simp: str_contains_here)

lemma thumb_name_contains: "str_contains (thumb_name filename) ''_thumb''"
  unfolding thumb_name_def by (cases "splitext filename") (simp only: prod.case str_contains_infix)

lemma thumb_loop_world:
  assumes "\<not> str_contains n ''_thumb''"
  shows "map_of (files (thumb_loop E folder_path s names w)) n = map_of (files w) n
       \<and> set (console w) \<subseteq> set (console (thumb_loop E folder_path s names w))"
proof (induction names arbitrary: w)
  case Nil
  then show ?case by simp
next
  case (Cons filename rest)
  have ne: "n \<noteq> thumb_name filename"
    using assms thumb_name_contains by auto
  let ?p = "os_path_join folder_path filename"
  let ?q = "os_path_join folder_path (thumb_name filename)"
  show ?case
  proof (cases "recognized filename")
    case False
    then show ?thesis using Cons.IH by simp
  next
    case True
    show ?thesis
    proof (cases "endswith (lower filename) ''.gif''")
      case gif: True
      have step: "thumb_loop E folder_path s (filename # rest) w
          = thumb_loop E folder_path s rest (resize_gif E ?p ?q s w)"
        using True gif by (simp add: try_except_def Let_def)
      from resize_gif_world [of n ?q E ?p s w] ne
      have "map_of (files (resize_gif E ?p ?q s w)) n = map_of (files w) n"
        and "set (console w) \<subseteq> set (console (resize_gif E ?p ?q s w))"
        by (auto simp: os_path_join_def)
      then show ?thesis
        unfolding step using Cons.IH [of "resize_gif E ?p ?q s w"] by auto
    next
      case static: False
      obtain r w1 where run: "resize_static E ?p ?q s w = (r, w1)"
        by (cases "resize_static E ?p ?q s w")
      from resize_static_world [OF run, of n] ne
      have f1: "map_of (files w1) n = map_of (files w) n"
        and c1: "set (console w) \<subseteq> set (console w1)"
        by (auto simp: os_path_join_def)
      show ?thesis
      proof (cases r)
        case (Inl e)
        then have step: "thumb_loop E folder_path s (filename # rest) w
            = thumb_loop E folder_path s rest (py_print (Error_resizing_image filename e) w1)"
          using True static run by (simp add: try_except_def Let_def)
        show ?thesis
          unfolding step
          using Cons.IH [of "py_print (Error_resizing_image filename e) w1"] f1 c1 by auto
      next
        case (Inr u)
        then have step: "thumb_loop E folder_path s (filename # rest) w
            = thumb_loop E folder_path s rest w1"
          using True static run by (simp add: try_except_def Let_def)
        show ?thesis
          unfolding step using Cons.IH [of w1] f1 c1 by auto
      qed
    qed
  qed
qed

lemma catalog_entry_keys:
  "catalog_entry E folder_path filename cat w = (Inr cat', w') \<Longrightarrow> map fst cat' = map fst cat"
  by (auto simp: catalog_entry_def Let_def dict_append_def split: prod.splits sum.splits if_splits)

lemma catalog_loop_keys:
  "map fst (fst (catalog_loop E folder_path names cat w)) = map fst cat"
proof (induction names arbitrary: cat w)
  case Nil
  then show ?case by simp
next
  case (Cons filename rest)
  show ?case
  proof (cases "catalog_entry E folder_path filename cat w")
    case (Pair r w1)
    then show ?thesis
      using Cons.IH by (cases r) (auto dest: catalog_entry_keys)
  qed
qed


subsection \<open>A run that completes\<close>

lemma resize_images_in_folder_completes:
  assumes "resize_images_in_folder E folder_path scale_arg w = (Inr (), w')"
  obtains cat w2 where
    "\<not> os_fails E (Listdir folder_path) (files (delete_thumb_files E folder_path w))"
    and "catalog_loop E folder_path (map fst (files (delete_thumb_files E folder_path w)))
           image_formats_init (delete_thumb_files E folder_path w) = (cat, w2)"
    and "\<not> os_fails E (Listdir folder_path) (files (write_image_list E folder_path cat w2))"
    and "w' = thumb_loop E folder_path (case scale_arg of None \<Rightarrow> 25 / 100 | Some s \<Rightarrow> s)
                (map fst (files (write_image_list E folder_path cat w2)))
                (write_image_list E folder_path cat w2)"
proof -
  let ?w1 = "delete_thumb_files E folder_path w"
  obtain cat w2 where loop:
    "catalog_loop E folder_path (map fst (files ?w1)) image_formats_init ?w1 = (cat, w2)"
    by (cases "catalog_loop E folder_path (map fst (files ?w1)) image_formats_init ?w1")
  from assms have l1: "\<not> os_fails E (Listdir folder_path) (files ?w1)"
    by (auto simp: resize_images_in_folder_def Let_def seq_def os_listdir_def split: if_splits)
  from assms l1 loop
  have l2: "\<not> os_fails E (Listdir folder_path) (files (write_image_list E folder_path cat w2))"
    by (auto simp: resize_images_in_folder_def Let_def seq_def os_listdir_def split: if_splits)
  from assms l1 l2 loop
  have fin: "w' = thumb_loop E folder_path (case scale_arg of None \<Rightarrow> 25 / 100 | Some s \<Rightarrow> s)
                (map fst (files (write_image_list E folder_path cat w2)))
                (write_image_list E folder_path cat w2)"
    by (auto simp: resize_images_in_folder_def Let_def seq_def os_listdir_def split: if_splits)
  show ?thesis by (rule that [OF l1 loop l2 fin])
qed

lemma four_keys:
  assumes "map fst cat = [a, b, c, d]"
  shows "\<exists>x y z u. cat = [(a, x), (b, y), (c, z), (d, u)]"
proof -
  from assms obtain e1 e2 e3 e4 where "cat = [e1, e2, e3, e4]"
    by (auto simp: map_eq_Cons_conv)
  with assms show ?thesis by (cases e1; cases e2; cases e3; cases e4) auto
qed

lemma manifest_written:
  assumes "resize_images_in_folder E folder_path scale_arg w = (Inr (), w')"
    and "\<forall>e. Error_writing_image_list e \<notin> set (console w')"
  shows "map_of (files w') ''image_list.txt''
           = Some (Text (manifest_text
               (fst (catalog_loop E folder_path
                       (map fst (files (delete_thumb_files E folder_path w)))
                       image_formats_init (delete_thumb_files E folder_path w)))))"
proof -
  let ?w1 = "delete_thumb_files E folder_path w"
  let ?s = "case scale_arg of None \<Rightarrow> 25 / 100 | Some s \<Rightarrow> s"
  from assms(1) obtain cat w2 where
    loop: "catalog_loop E folder_path (map fst (files ?w1)) image_formats_init ?w1 = (cat, w2)"
    and w': "w' = thumb_loop E folder_path ?s
                (map fst (files (write_image_list E folder_path cat w2)))
                (write_image_list E folder_path cat w2)"
    by (rule resize_images_in_folder_completes)
  let ?w3 = "write_image_list E folder_path cat w2"
  have nt: "\<not> str_contains ''image_list.txt'' ''_thumb''" by simp
  from thumb_loop_world [OF nt, of E folder_path ?s "map fst (files ?w3)" ?w3]
  have kept: "map_of (files w') ''image_list.txt'' = map_of (files ?w3) ''image_list.txt''"
    and con: "set (console ?w3) \<subseteq> set (console w')"
    unfolding w' by auto
  from con assms(2) have "\<forall>e. Error_writing_image_list e \<notin> set (console ?w3)" by auto
  with write_image_list_cases [of E folder_path cat w2]
  have "map_of (files ?w3) ''image_list.txt'' = Some (Text (manifest_text cat))" by auto
  with kept loop show ?thesis by simp
qed

text \<open>
  Claim C5. After a run that completes and in which the manifest write did not fail (no
  \<open>Error writing image list\<close> line was printed), \<open>image_list.txt\<close> holds, for the four
  formats in the order png, jpg, jpeg, gif, the header line \<open>Format: <fmt>\<close>, one line
  \<open>- <file>\<close> for each file of that format's catalog list in catalog order, and a blank
  line, also when the list is empty.
\<close>

theorem manifest_contents:
  assumes "resize_images_in_folder E folder_path scale_arg w = (Inr (), w')"
    and "\<forall>e. Error_writing_image_list e \<notin> set (console w')"
  shows "\<exists>png jpg jpeg gif.
           fst (catalog_loop E folder_path (map fst (files (delete_thumb_files E folder_path w)))
                  image_formats_init (delete_thumb_files E folder_path w))
             = [(''png'', png), (''jpg'', jpg), (''jpeg'', jpeg), (''gif'', gif)]
         \<and> map_of (files w') ''image_list.txt''
             = Some (Text (manifest_section ''png'' png @ manifest_section ''jpg'' jpg
                           @ manifest_section ''jpeg'' jpeg @ manifest_section ''gif'' gif))"
proof -
  let ?w1 = "delete_thumb_files E folder_path w"
  let ?s = "case scale_arg of None \<Rightarrow> 25 / 100 | Some s \<Rightarrow> s"
  from assms(1) obtain cat w2 where
    loop: "catalog_loop E folder_path (map fst (files ?w1)) image_formats_init ?w1 = (cat, w2)"
    and w': "w' = thumb_loop E folder_path ?s
                (map fst (files (write_image_list E folder_path cat w2)))
                (write_image_list E folder_path cat w2)"
    by (rule resize_images_in_folder_completes)
  let ?w3 = "write_image_list E folder_path cat w2"
  have nt: "\<not> str_contains ''image_list.txt'' ''_thumb''" by simp
  from thumb_loop_world [OF nt, of E folder_path ?s "map fst (files ?w3)" ?w3]
  have kept: "map_of (files w') ''image_list.txt'' = map_of (files ?w3) ''image_list.txt''"
    and con: "set (console ?w3) \<subseteq> set (console w')"
    unfolding w' by auto
  from con assms(2) have "\<forall>e. Error_writing_image_list e \<notin> set (console ?w3)" by auto
  with write_image_list_cases [of E folder_path cat w2]
  have written: "map_of (files ?w3) ''image_list.txt'' = Some (Text (manifest_text cat))" by auto
  have "map fst cat = [''png'', ''jpg'', ''jpeg'', ''gif'']"
    using catalog_loop_keys [of E folder_path "map fst (files ?w1)" image_formats_init ?w1] loop
    by (simp add: image_formats_init_def)
  from four_keys [OF this] obtain png jpg jpeg gif where
    cat: "cat = [(''png'', png), (''jpg'', jpg), (''jpeg'', jpeg), (''gif'', gif)]"
    by blast
  have "manifest_text cat = manifest_section ''png'' png @ manifest_section ''jpg'' jpg
                           @ manifest_section ''jpeg'' jpeg @ manifest_section ''gif'' gif"
    unfolding cat by (simp add: manifest_text_def)
  with kept written loop cat show ?thesis by simp
qed


subsection \<open>A complete run on a sample folder\<close>

lemma write_files_ok:
  assumes "\<forall>c fs. \<not> os_fails E c fs"
  shows "write_files E f file_list w =
           (Inr (), if file_list = [] then w else
              w\<lparr>files := AList.update (snd f)
                 (Text (text_of (map_of (files w) (snd f))
                         @ concat (map (\<lambda>file. ''- '' @ file @ newline) file_list))) (files w)\<rparr>)"
proof (induction file_list arbitrary: w)
  case Nil
  then show ?case by simp
next
  case (Cons name rest)
  show ?case
    using assms
    by (simp add: seq_def file_write_def Cons.IH map_of_update_same text_of_def)
qed

lemma write_formats_ok:
  assumes "\<forall>c fs. \<not> os_fails E c fs"
  shows "write_formats E f cat w =
           (Inr (), if cat = [] then w else
              w\<lparr>files := AList.update (snd f)
                 (Text (text_of (map_of (files w) (snd f)) @ manifest_text cat)) (files w)\<rparr>)"
proof (induction cat arbitrary: w)
  case Nil
  then show ?case by simp
next
  case (Cons entry rest)
  obtain fmt file_list where entry: "entry = (fmt, file_list)" by (cases entry)
  show ?case
    unfolding entry using assms
    by (simp add: seq_def file_write_def write_files_ok Cons.IH map_of_update_same text_of_def
        manifest_text_def manifest_section_def)
qed

lemma write_image_list_ok:
  assumes "\<forall>c fs. \<not> os_fails E c fs"
  shows "write_image_list E folder_path cat w =
           w\<lparr>files := AList.update ''image_list.txt'' (Text (manifest_text cat)) (files w)\<rparr>"
  using assms
  by (cases "cat = []")
     (simp_all add: write_image_list_def try_except_def seq_def open_w_def write_formats_ok
       map_of_update_same text_of_def os_path_join_def Let_def, simp add: manifest_text_def)

lemma sample_manifest: "write_image_list env_ok ''D'' sample_catalog sample_renamed = sample_listed"
proof -
  have ok: "\<forall>c fs. \<not> os_fails env_ok c fs" by (simp add: env_ok_def)
  show ?thesis
    unfolding write_image_list_ok [OF ok]
    by (simp add: sample_catalog_def sample_renamed_def sample_listed_def manifest_text_def
        manifest_section_def)
qed


lemma sample_cleanup: "delete_thumb_files env_ok ''D'' sample_folder = sample_folder"
  by code_simp

lemma sample_catalog_loop:
  "catalog_loop env_ok ''D'' (map fst (files sample_folder)) image_formats_init sample_folder
     = (sample_catalog, sample_renamed)"
  by code_simp

lemma sample_thumb_loop:
  "thumb_loop env_ok ''D'' (1 / 4) (map fst (files sample_listed)) sample_listed
     = sample_folder_done"
  by code_simp

lemma sample_run:
  "resize_images_in_folder env_ok ''D'' None sample_folder = (Inr (), sample_folder_done)"
proof -
  have ok: "\<And>c fs. \<not> os_fails env_ok c fs" by (simp add: env_ok_def)
  show ?thesis
    by (simp add: resize_images_in_folder_def seq_def os_listdir_def ok sample_cleanup
        sample_catalog_loop sample_manifest sample_thumb_loop)
qed

theorem manifest_contents_witness:
  "map_of (files (snd (resize_images_in_folder env_ok ''D'' None sample_folder))) ''image_list.txt''
     = Some (Text (manifest_section ''png'' [''photo.png'', ''b.PNG'']
                   @ manifest_section ''jpg'' [''a1.JPG'']
                   @ manifest_section ''jpeg'' []
                   @ manifest_section ''gif'' [''clip.gif'']))"
proof -
  have quiet: "\<forall>e. Error_writing_image_list e \<notin> set (console sample_folder_done)"
    by (simp add: sample_folder_done_def)
  from manifest_contents [OF sample_run quiet] show ?thesis
    by (auto simp: sample_run sample_cleanup sample_catalog_loop sample_catalog_def)
qed

section \<open>Properties of the orchestrator\<close>

subsection \<open>Recognized names and thumbnail names\<close>

lemma lower_char_dot: "lower_char c = CHR ''.'' \<longleftrightarrow> c = CHR ''.''"
proof
  assume a: "lower_char c = CHR ''.''"
  show "c = CHR ''.''"
  proof (cases "65 \<le> (of_char c :: nat) \<and> (of_char c :: nat) \<le> 90")
    case True
    then have "lower_char c = char_of ((of_char c :: nat) + 32)" by (simp add: lower_char_def)
    with a have "take_bit 8 ((of_char c :: nat) + 32) = 46" by (simp add: char_of_eq_iff)
    moreover have "(of_char c :: nat) + 32 < 2 ^ 8" using True by simp
    ultimately have "(of_char c :: nat) + 32 = 46" by (simp add: take_bit_nat_eq_self)
    with True show ?thesis by simp
  next
    case False
    with a show ?thesis by (auto simp: lower_char_def Let_def)
  qed
next
  assume "c = CHR ''.''"
  then show "lower_char c = CHR ''.''" by (simp add: lower_char_def)
qed

lemma lower_no_dot: "CHR ''.'' \<notin> set (lower e) \<longleftrightarrow> CHR ''.'' \<notin> set e"
proof -
  have "\<And>c. (CHR ''.'' = lower_char c) = (c = CHR ''.'')"
    using lower_char_dot by metis
  then show ?thesis by (auto simp: lower_def image_iff)
qed

lemma str_rfind_last:
  "c \<notin> set e \<Longrightarrow> str_rfind (a @ c # e) c = Some (length a)"
proof (induction a)
  case Nil
  have "str_rfind e c = None" using Nil by (induction e) (auto split: option.splits)
  then show ?case by simp
next
  case (Cons x xs)
  then show ?case by simp
qed

lemma splitext_last_dot:
  assumes "CHR ''.'' \<notin> set e"
  shows "splitext (stem @ CHR ''.'' # e) =
           (if list_ex (\<lambda>c. c \<noteq> CHR ''.'') stem then (stem, CHR ''.'' # e)
            else (stem @ CHR ''.'' # e, []))"
  by (simp add: splitext_def str_rfind_last [OF assms])

lemma endswith_split: "endswith s suf \<Longrightarrow> \<exists>pre. s = pre @ suf"
  unfolding endswith_def by (metis append_take_drop_id)

lemma lower_eq_append:
  "lower fn = pre @ suf \<Longrightarrow> \<exists>a b. fn = a @ b \<and> lower a = pre \<and> lower b = suf"
  unfolding lower_def by (metis map_eq_append_conv)

lemma lower_eq_Cons:
  "lower b = x # xs \<Longrightarrow> \<exists>d e. b = d # e \<and> lower_char d = x \<and> lower e = xs"
  unfolding lower_def by auto

lemma recognized_split:
  assumes "recognized filename"
  shows "\<exists>stem e. filename = stem @ CHR ''.'' # e \<and> CHR ''.'' \<notin> set e
           \<and> lower e \<in> set formats"
proof -
  from assms obtain x where x: "x \<in> set formats" and e: "endswith (lower filename) (CHR ''.'' # x)"
    by (auto simp: recognized_def endswith_any_def formats_def)
  from endswith_split [OF e] obtain pre where "lower filename = pre @ CHR ''.'' # x" by blast
  from lower_eq_append [OF this] obtain a b where
    ab: "filename = a @ b" and "lower b = CHR ''.'' # x" by blast
  from lower_eq_Cons [OF this(2)] obtain d e' where
    b: "b = d # e'" and d: "lower_char d = CHR ''.''" and e': "lower e' = x" by blast
  have "d = CHR ''.''" using d by (simp add: lower_char_dot)
  moreover have "CHR ''.'' \<notin> set x" using x by (auto simp: formats_def)
  then have "CHR ''.'' \<notin> set e'" using e' lower_no_dot by blast
  ultimately show ?thesis using ab b e' x by blast
qed

lemma resize_images_in_folder_default:
  "resize_images_in_folder E folder_path None w
     = resize_images_in_folder E folder_path (Some (25 / 100)) w"
  by (simp add: resize_images_in_folder_def)


lemma lower_append: "lower (a @ b) = lower a @ lower b"
  by (simp add: lower_def)

lemma endswith_append: "endswith (a @ suf) suf"
  by (simp add: endswith_def)

lemma endswith_dot_ext:
  "endswith (lower filename) (CHR ''.'' # x) \<longleftrightarrow>
     (\<exists>stem e. filename = stem @ CHR ''.'' # e \<and> lower e = x)"
proof
  assume e: "endswith (lower filename) (CHR ''.'' # x)"
  from endswith_split [OF e] obtain pre where "lower filename = pre @ CHR ''.'' # x" by blast
  from lower_eq_append [OF this] obtain a b where
    ab: "filename = a @ b" and "lower b = CHR ''.'' # x" by blast
  from lower_eq_Cons [OF this(2)] obtain d e' where
    b: "b = d # e'" and d: "lower_char d = CHR ''.''" and e': "lower e' = x" by blast
  have "d = CHR ''.''" using d by (simp add: lower_char_dot)
  with ab b e' show "\<exists>stem e. filename = stem @ CHR ''.'' # e \<and> lower e = x" by blast
next
  assume "\<exists>stem e. filename = stem @ CHR ''.'' # e \<and> lower e = x"
  then obtain stem e where f: "filename = stem @ CHR ''.'' # e" and x: "lower e = x" by blast
  have "lower_char (CHR ''.'') = CHR ''.''" by (simp add: lower_char_dot)
  then have "lower filename = lower stem @ (CHR ''.'' # x)"
    unfolding f using x by (simp add: lower_def)
  then show "endswith (lower filename) (CHR ''.'' # x)" by (simp add: endswith_append)
qed

lemma recognized_iff:
  "recognized filename \<longleftrightarrow>
     (\<exists>stem e. filename = stem @ ''.'' @ e \<and> lower e \<in> set formats)"
proof -
  have "recognized filename \<longleftrightarrow> (\<exists>x \<in> set formats. endswith (lower filename) (CHR ''.'' # x))"
    by (auto simp: recognized_def endswith_any_def formats_def)
  also have "\<dots> \<longleftrightarrow> (\<exists>stem e. filename = stem @ ''.'' @ e \<and> lower e \<in> set formats)"
    unfolding endswith_dot_ext by auto
  finally show ?thesis .
qed

lemma gif_iff:
  "endswith (lower filename) ''.gif'' \<longleftrightarrow>
     (\<exists>stem e. filename = stem @ ''.'' @ e \<and> lower e = ''gif'')"
  using endswith_dot_ext [of filename "''gif''"] by simp

lemma thumb_loop_append:
  "thumb_loop E folder_path s (xs @ ys) w
     = thumb_loop E folder_path s ys (thumb_loop E folder_path s xs w)"
  by (induction xs arbitrary: w) (auto simp: Let_def)

lemma thumb_loop_entry:
  "thumb_loop E folder_path s [filename] w =
     (if \<not> recognized filename then w
      else if endswith (lower filename) ''.gif''
      then resize_gif E (folder_path, filename) (folder_path, thumb_name filename) s w
      else (case resize_static E (folder_path, filename) (folder_path, thumb_name filename) s w of
              (Inl e, w') \<Rightarrow> py_print (Error_resizing_image filename e) w'
            | (Inr u, w') \<Rightarrow> w'))"
  by (cases "resize_static E (folder_path, filename) (folder_path, thumb_name filename) s w")
     (simp add: try_except_def os_path_join_def Let_def split: sum.splits)

lemma resize_images_in_folder_staged:
  "resize_images_in_folder E folder_path (Some s) w =
     (let w1 = delete_thumb_files E folder_path w
      in if os_fails E (Listdir folder_path) (files w1)
         then (Inl (OSError (Listdir folder_path)), w1)
         else (let cw = catalog_loop E folder_path (map fst (files w1)) image_formats_init w1;
                   w3 = write_image_list E folder_path (fst cw) (snd cw)
               in if os_fails E (Listdir folder_path) (files w3)
                  then (Inl (OSError (Listdir folder_path)), w3)
                  else (Inr (), thumb_loop E folder_path s (map fst (files w3)) w3)))"
  by (simp add: resize_images_in_folder_def seq_def os_listdir_def Let_def split: prod.splits)

subsection \<open>The lines each stage prints\<close>

lemma delete_loop_console:
  "delete_loop E folder_path ns w = (r, w') \<Longrightarrow>
   \<exists>ms. console w' = console w @ ms \<and> list_all cleanup_message ms"
proof (induction ns arbitrary: w)
  case Nil
  then show ?case by auto
next
  case (Cons n ns)
  show ?case
  proof (cases "str_contains n ''_thumb''")
    case False
    with Cons show ?thesis by simp
  next
    case True
    obtain r1 w1 where rm: "os_remove E (os_path_join folder_path n) w = (r1, w1)"
      by (cases "os_remove E (os_path_join folder_path n) w")
    then have c1: "console w1 = console w"
      by (auto simp: os_remove_def split: if_splits)
    show ?thesis
    proof (cases r1)
      case (Inl e)
      with Cons.prems True rm c1 show ?thesis by (auto simp: Let_def)
    next
      case (Inr u)
      with Cons.prems True rm
      have "delete_loop E folder_path ns (py_print (Deleted (os_path_join folder_path n)) w1) = (r, w')"
        by (simp add: Let_def)
      from Cons.IH [OF this] obtain ms where
        "console w' = console w @ (Deleted (os_path_join folder_path n) # ms)"
        and "list_all cleanup_message ms"
        using c1 by auto
      then have "console w' = console w @ (Deleted (os_path_join folder_path n) # ms)
          \<and> list_all cleanup_message (Deleted (os_path_join folder_path n) # ms)"
        by (simp add: cleanup_message_def)
      then show ?thesis by blast
    qed
  qed
qed

lemma delete_thumb_files_console:
  "\<exists>ms. console (delete_thumb_files E folder_path w) = console w @ ms
        \<and> list_all cleanup_message ms"
proof (cases "os_fails E (Listdir folder_path) (files w)")
  case True
  then have "console (delete_thumb_files E folder_path w)
      = console w @ [Error_deleting_files (OSError (Listdir folder_path))]
      \<and> list_all cleanup_message [Error_deleting_files (OSError (Listdir folder_path))]"
    by (simp add: delete_thumb_files_def try_except_def seq_def os_listdir_def cleanup_message_def)
  then show ?thesis by blast
next
  case False
  obtain r w1 where loop: "delete_loop E folder_path (map fst (files w)) w = (r, w1)"
    by (cases "delete_loop E folder_path (map fst (files w)) w")
  from delete_loop_console [OF loop] obtain ms where
    ms: "console w1 = console w @ ms" "list_all cleanup_message ms" by blast
  show ?thesis
  proof (cases r)
    case (Inl e)
    then have "console (delete_thumb_files E folder_path w) = console w @ (ms @ [Error_deleting_files e])
        \<and> list_all cleanup_message (ms @ [Error_deleting_files e])"
      using False loop ms
      by (simp add: delete_thumb_files_def try_except_def seq_def os_listdir_def cleanup_message_def)
    then show ?thesis by blast
  next
    case (Inr u)
    then have "console (delete_thumb_files E folder_path w) = console w @ ms"
      using False loop ms
      by (simp add: delete_thumb_files_def try_except_def seq_def os_listdir_def)
    with ms show ?thesis by blast
  qed
qed

lemma file_write_console: "file_write E f s w = (r, w') \<Longrightarrow> console w' = console w"
  by (auto simp: file_write_def split: if_splits)

lemma seq_console:
  assumes "seq m f w = (r, w')"
    and "\<And>r1 w1. m w = (r1, w1) \<Longrightarrow> console w1 = console w"
    and "\<And>a w1 r2 w2. f a w1 = (r2, w2) \<Longrightarrow> console w2 = console w1"
  shows "console w' = console w"
proof (cases "m w")
  case (Pair r1 w1)
  then have c1: "console w1 = console w" by (rule assms(2))
  show ?thesis
  proof (cases r1)
    case (Inl e)
    with assms(1) Pair c1 show ?thesis by (simp add: seq_def)
  next
    case (Inr a)
    with assms(1) Pair have "f a w1 = (r, w')" by (simp add: seq_def)
    then have "console w' = console w1" by (rule assms(3))
    with c1 show ?thesis by simp
  qed
qed

lemma write_files_console:
  "write_files E f file_list w = (r, w') \<Longrightarrow> console w' = console w"
proof (induction file_list arbitrary: w r w')
  case Nil
  then show ?case by simp
next
  case (Cons name rest)
  from Cons.prems
  have "seq (file_write E f (''- '' @ name @ newline)) (\<lambda>u. write_files E f rest) w = (r, w')"
    by (simp only: write_files.simps)
  then show ?case
    by (rule seq_console) (auto dest: file_write_console Cons.IH)
qed

lemma write_formats_console:
  "write_formats E f cat w = (r, w') \<Longrightarrow> console w' = console w"
proof (induction cat arbitrary: w r w')
  case Nil
  then show ?case by simp
next
  case (Cons entry rest)
  obtain fmt file_list where entry: "entry = (fmt, file_list)" by (cases entry)
  from Cons.prems
  have "seq (file_write E f (''Format: '' @ fmt @ newline)) (\<lambda>u.
        seq (write_files E f file_list) (\<lambda>u.
        seq (file_write E f newline) (\<lambda>u. write_formats E f rest))) w = (r, w')"
    unfolding entry by (simp only: write_formats.simps)
  then show ?case
  proof (rule seq_console)
    fix r1 w1 assume "file_write E f (''Format: '' @ fmt @ newline) w = (r1, w1)"
    then show "console w1 = console w" by (rule file_write_console)
  next
    fix a w1 r2 w2
    assume "seq (write_files E f file_list) (\<lambda>u.
        seq (file_write E f newline) (\<lambda>u. write_formats E f rest)) w1 = (r2, w2)"
    then show "console w2 = console w1"
    proof (rule seq_console)
      fix r3 w3 assume "write_files E f file_list w1 = (r3, w3)"
      then show "console w3 = console w1" by (rule write_files_console)
    next
      fix a w3 r4 w4
      assume "seq (file_write E f newline) (\<lambda>u. write_formats E f rest) w3 = (r4, w4)"
      then show "console w4 = console w3"
        by (rule seq_console) (auto dest: file_write_console Cons.IH)
    qed
  qed
qed

lemma write_image_list_console:
  "\<exists>ms. console (write_image_list E folder_path cat w) = console w @ ms
        \<and> list_all manifest_message ms"
proof -
  let ?f = "os_path_join folder_path ''image_list.txt''"
  obtain r w1 where body: "seq (open_w E ?f) (\<lambda>u. write_formats E ?f cat) w = (r, w1)"
    by (cases "seq (open_w E ?f) (\<lambda>u. write_formats E ?f cat) w")
  then have c1: "console w1 = console w"
    by (rule seq_console) (auto simp: open_w_def split: if_splits dest: write_formats_console)
  show ?thesis
  proof (cases r)
    case (Inl e)
    then have "console (write_image_list E folder_path cat w) = console w @ [Error_writing_image_list e]
        \<and> list_all manifest_message [Error_writing_image_list e]"
      using body c1 by (simp add: write_image_list_def try_except_def Let_def manifest_message_def)
    then show ?thesis by blast
  next
    case (Inr u)
    then have "console (write_image_list E folder_path cat w) = console w @ []
        \<and> list_all manifest_message []"
      using body c1 by (simp add: write_image_list_def try_except_def Let_def)
    then show ?thesis by blast
  qed
qed

lemma frames_loop_console:
  "frames_loop E p s i reader acc w = (r, w') \<Longrightarrow>
   \<exists>ms. console w' = console w @ ms \<and> list_all thumbnail_message ms"
proof (induction reader arbitrary: i acc w)
  case Nil
  then show ?case by auto
next
  case (Cons frame rest)
  show ?case
  proof (cases "os_fails E (Reader_next p i) (files w)")
    case True
    with Cons.prems show ?thesis by auto
  next
    case False
    show ?thesis
    proof (cases "process_frame E frame s")
      case (Inl e)
      with Cons.prems False
      have "frames_loop E p s (Suc i) rest acc (py_print (Error_processing_frame e) w) = (r, w')"
        by simp
      from Cons.IH [OF this] obtain ms where
        "console w' = console w @ (Error_processing_frame e # ms)"
        and "list_all thumbnail_message ms"
        by auto
      then have "console w' = console w @ (Error_processing_frame e # ms)
          \<and> list_all thumbnail_message (Error_processing_frame e # ms)"
        by (simp add: thumbnail_message_def)
      then show ?thesis by blast
    next
      case (Inr img)
      with Cons.prems False
      have "frames_loop E p s (Suc i) rest (acc @ [img]) w = (r, w')" by simp
      from Cons.IH [OF this] show ?thesis .
    qed
  qed
qed

lemma imageio_mimsave_console:
  "imageio_mimsave E q frames d w = (r, w') \<Longrightarrow> console w' = console w"
  by (auto simp: imageio_mimsave_def split: if_splits)

lemma resize_gif_console:
  "\<exists>ms. console (resize_gif E p q s w) = console w @ ms \<and> list_all thumbnail_message ms"
proof (cases "get_reader E p w")
  case (Pair r0 w0)
  then have w0: "w0 = w" by (rule get_reader_world)
  show ?thesis
  proof (cases r0)
    case (Inl e)
    then have "console (resize_gif E p q s w) = console w @ [Error_resizing_GIF p e]
        \<and> list_all thumbnail_message [Error_resizing_GIF p e]"
      using Pair w0 by (simp add: resize_gif_def try_except_def seq_def thumbnail_message_def)
    then show ?thesis by blast
  next
    case (Inr reader)
    note rd = Pair [unfolded Inr w0]
    obtain r1 w1 where loop: "frames_loop E p s 0 reader [] w = (r1, w1)"
      by (cases "frames_loop E p s 0 reader [] w")
    from frames_loop_console [OF loop] obtain ms where
      ms: "console w1 = console w @ ms" "list_all thumbnail_message ms" by blast
    show ?thesis
    proof (cases r1)
      case (Inl e)
      then have "console (resize_gif E p q s w) = console w @ (ms @ [Error_resizing_GIF p e])
          \<and> list_all thumbnail_message (ms @ [Error_resizing_GIF p e])"
        using rd loop ms by (simp add: resize_gif_def try_except_def seq_def thumbnail_message_def)
      then show ?thesis by blast
    next
      case (Inr resized)
      note loop' = loop [unfolded Inr]
      obtain r2 w2 where sv: "imageio_mimsave E q resized (1 / 10) w1 = (r2, w2)"
        by (cases "imageio_mimsave E q resized (1 / 10) w1")
      then have c2: "console w2 = console w1" by (rule imageio_mimsave_console)
      show ?thesis
      proof (cases r2)
        case (Inl e)
        then have "console (resize_gif E p q s w) = console w @ (ms @ [Error_resizing_GIF p e])
            \<and> list_all thumbnail_message (ms @ [Error_resizing_GIF p e])"
          using rd loop' sv c2 ms
          by (simp add: resize_gif_def try_except_def seq_def thumbnail_message_def)
        then show ?thesis by blast
      next
        case (Inr u)
        then have "console (resize_gif E p q s w) = console w @ (ms @ [Resized_and_saved_GIF q])
            \<and> list_all thumbnail_message (ms @ [Resized_and_saved_GIF q])"
          using rd loop' sv c2 ms
          by (simp add: resize_gif_def try_except_def seq_def thumbnail_message_def)
        then show ?thesis by blast
      qed
    qed
  qed
qed

lemma resize_static_console:
  assumes "resize_static E p q s w = (r, w')"
  shows "\<exists>ms. console w' = console w @ ms \<and> list_all thumbnail_message ms"
proof (cases "image_open E p w")
  case (Pair r0 w0)
  then have w0: "w0 = w"
    by (auto simp: image_open_def split: option.splits list.splits if_splits)
  have "console w' = console w \<or> console w' = console w @ [Resized_and_saved q]"
    using assms Pair w0
    by (cases r0)
       (auto simp: resize_static_def seq_def Let_def image_resize_def image_save_def
          split: if_splits)
  then have "(console w' = console w @ [] \<and> list_all thumbnail_message [])
      \<or> (console w' = console w @ [Resized_and_saved q]
          \<and> list_all thumbnail_message [Resized_and_saved q])"
    by (simp add: thumbnail_message_def)
  then show ?thesis by blast
qed

lemma thumb_loop_console:
  "\<exists>ms. console (thumb_loop E folder_path s ns w) = console w @ ms
        \<and> list_all thumbnail_message ms"
proof (induction ns arbitrary: w)
  case Nil
  then show ?case by simp
next
  case (Cons n ns)
  have split: "thumb_loop E folder_path s (n # ns) w
      = thumb_loop E folder_path s ns (thumb_loop E folder_path s [n] w)"
    using thumb_loop_append [of E folder_path s "[n]" ns w] by simp
  have one: "\<exists>ms. console (thumb_loop E folder_path s [n] w) = console w @ ms
        \<and> list_all thumbnail_message ms"
  proof (cases "recognized n")
    case False
    then have "console (thumb_loop E folder_path s [n] w) = console w @ []
        \<and> list_all thumbnail_message []"
      by (simp add: thumb_loop_entry del: thumb_loop.simps)
    then show ?thesis by blast
  next
    case True
    show ?thesis
    proof (cases "endswith (lower n) ''.gif''")
      case gif: True
      with True resize_gif_console [of E "(folder_path, n)" "(folder_path, thumb_name n)" s w]
      show ?thesis by (simp add: thumb_loop_entry del: thumb_loop.simps)
    next
      case static: False
      obtain r w1 where run:
        "resize_static E (folder_path, n) (folder_path, thumb_name n) s w = (r, w1)"
        by (cases "resize_static E (folder_path, n) (folder_path, thumb_name n) s w")
      from resize_static_console [OF run] obtain ms where
        ms: "console w1 = console w @ ms" "list_all thumbnail_message ms" by blast
      show ?thesis
      proof (cases r)
        case (Inl e)
        then have "console (thumb_loop E folder_path s [n] w)
              = console w @ (ms @ [Error_resizing_image n e])
            \<and> list_all thumbnail_message (ms @ [Error_resizing_image n e])"
          using True static run ms by (simp add: thumb_loop_entry thumbnail_message_def del: thumb_loop.simps)
        then show ?thesis by blast
      next
        case (Inr u)
        then have "console (thumb_loop E folder_path s [n] w) = console w @ ms"
          using True static run ms by (simp add: thumb_loop_entry del: thumb_loop.simps)
        with ms show ?thesis by blast
      qed
    qed
  qed
  then obtain ms1 where
    ms1: "console (thumb_loop E folder_path s [n] w) = console w @ ms1"
      "list_all thumbnail_message ms1" by blast
  from Cons.IH [of "thumb_loop E folder_path s [n] w"] obtain ms2 where
    ms2: "console (thumb_loop E folder_path s ns (thumb_loop E folder_path s [n] w))
            = console (thumb_loop E folder_path s [n] w) @ ms2"
      "list_all thumbnail_message ms2" by blast
  have "console (thumb_loop E folder_path s (n # ns) w) = console w @ (ms1 @ ms2)
      \<and> list_all thumbnail_message (ms1 @ ms2)"
    unfolding split using ms1 ms2 by simp
  then show ?case by blast
qed

lemma thumb_loop_targets:
  assumes "n \<notin> thumb_name ` {m \<in> set ns. recognized m}"
  shows "map_of (files (thumb_loop E folder_path s ns w)) n = map_of (files w) n"
  using assms
proof (induction ns arbitrary: w)
  case Nil
  then show ?case by simp
next
  case (Cons m ns)
  have split: "thumb_loop E folder_path s (m # ns) w
      = thumb_loop E folder_path s ns (thumb_loop E folder_path s [m] w)"
    using thumb_loop_append [of E folder_path s "[m]" ns w] by simp
  have rest: "n \<notin> thumb_name ` {k \<in> set ns. recognized k}"
    using Cons.prems by auto
  have one: "map_of (files (thumb_loop E folder_path s [m] w)) n = map_of (files w) n"
  proof (cases "recognized m")
    case False
    then show ?thesis by (simp add: thumb_loop_entry del: thumb_loop.simps)
  next
    case True
    with Cons.prems have ne: "n \<noteq> thumb_name m" by auto
    show ?thesis
    proof (cases "endswith (lower m) ''.gif''")
      case gif: True
      from resize_gif_world [of n "(folder_path, thumb_name m)" E "(folder_path, m)" s w] ne
      show ?thesis using True gif by (simp add: thumb_loop_entry del: thumb_loop.simps)
    next
      case static: False
      obtain r w1 where run:
        "resize_static E (folder_path, m) (folder_path, thumb_name m) s w = (r, w1)"
        by (cases "resize_static E (folder_path, m) (folder_path, thumb_name m) s w")
      from resize_static_world [OF run, of n] ne
      have "map_of (files w1) n = map_of (files w) n" by simp
      then show ?thesis
        using True static run by (cases r) (simp_all add: thumb_loop_entry del: thumb_loop.simps)
    qed
  qed
  show ?case
    unfolding split using Cons.IH [OF rest, of "thumb_loop E folder_path s [m] w"] one by simp
qed

lemma resize_images_in_folder_console:
  assumes "resize_images_in_folder E folder_path scale_arg w = (r, w')"
  shows "\<exists>m1 m2 m3 m4. console w' = console w @ m1 @ m2 @ m3 @ m4
           \<and> list_all cleanup_message m1 \<and> list_all catalog_message m2
           \<and> list_all manifest_message m3 \<and> list_all thumbnail_message m4"
proof -
  let ?s = "case scale_arg of None \<Rightarrow> 25 / 100 | Some s \<Rightarrow> s"
  have run: "resize_images_in_folder E folder_path (Some ?s) w = (r, w')"
    using assms by (cases scale_arg) (simp_all add: resize_images_in_folder_default)
  let ?w1 = "delete_thumb_files E folder_path w"
  from delete_thumb_files_console [of E folder_path w] obtain m1 where
    m1: "console ?w1 = console w @ m1" "list_all cleanup_message m1" by blast
  show ?thesis
  proof (cases "os_fails E (Listdir folder_path) (files ?w1)")
    case True
    with run have "w' = ?w1" by (simp add: resize_images_in_folder_staged Let_def)
    then have "console w' = console w @ m1 @ [] @ [] @ []
        \<and> list_all cleanup_message m1 \<and> list_all catalog_message []
        \<and> list_all manifest_message [] \<and> list_all thumbnail_message []"
      using m1 by simp
    then show ?thesis by blast
  next
    case l1: False
    from catalog_loop_run [of E folder_path "map fst (files ?w1)" image_formats_init ?w1]
    obtain w2 m2 where
      loop: "catalog_loop E folder_path (map fst (files ?w1)) image_formats_init ?w1
               = (foldl cat_add image_formats_init
                    (map clean_filename
                      (processed_entries E folder_path (map fst (files ?w1)) (files ?w1))), w2)"
      and m2: "console w2 = console ?w1 @ m2" "list_all catalog_message m2"
      by blast
    let ?cat = "foldl cat_add image_formats_init
                    (map clean_filename
                      (processed_entries E folder_path (map fst (files ?w1)) (files ?w1)))"
    let ?w3 = "write_image_list E folder_path ?cat w2"
    from write_image_list_console [of E folder_path ?cat w2] obtain m3 where
      m3: "console ?w3 = console w2 @ m3" "list_all manifest_message m3" by blast
    show ?thesis
    proof (cases "os_fails E (Listdir folder_path) (files ?w3)")
      case True
      with run l1 loop have "w' = ?w3" by (simp add: resize_images_in_folder_staged Let_def)
      then have "console w' = console w @ m1 @ m2 @ m3 @ []
          \<and> list_all cleanup_message m1 \<and> list_all catalog_message m2
          \<and> list_all manifest_message m3 \<and> list_all thumbnail_message []"
        using m1 m2 m3 by simp
      then show ?thesis by blast
    next
      case False
      with run l1 loop have w': "w' = thumb_loop E folder_path ?s (map fst (files ?w3)) ?w3"
        by (simp add: resize_images_in_folder_staged Let_def)
      from thumb_loop_console [of E folder_path ?s "map fst (files ?w3)" ?w3] obtain m4 where
        m4: "console w' = console ?w3 @ m4" "list_all thumbnail_message m4"
        unfolding w' by blast
      have "console w' = console w @ m1 @ m2 @ m3 @ m4
          \<and> list_all cleanup_message m1 \<and> list_all catalog_message m2
          \<and> list_all manifest_message m3 \<and> list_all thumbnail_message m4"
        using m1 m2 m3 m4 by simp
      then show ?thesis by blast
    qed
  qed
qed

subsection \<open>Stages and dispatch\<close>

lemma thumb_name_split:
  assumes "filename = stem @ ''.'' @ e" and "CHR ''.'' \<notin> set e"
  shows "thumb_name filename =
           (if list_ex (\<lambda>c. c \<noteq> CHR ''.'') stem then stem @ ''_thumb'' @ ''.'' @ e
            else filename @ ''_thumb'')"
proof -
  have "filename = stem @ CHR ''.'' # e" using assms(1) by simp
  then show ?thesis
    unfolding thumb_name_def using splitext_last_dot [OF assms(2), of stem] by simp
qed

text \<open>
  Claim C9, as amended. A call that leaves the scale factor out runs with 0.25. The
  orchestrator runs the cleanup, lists the folder, runs the normalize-and-catalog loop on
  that listing, writes the manifest, lists the folder again and runs the thumbnail pass on
  this second listing; whatever fails, the lines of a run are printed in that order of
  stages. The pass takes the entries in turn. It takes an entry exactly when its name is a
  stem, a dot and, in any letter case, one of png, jpg, jpeg, gif; it hands the entry to
  the GIF thumbnailer exactly when that extension is gif, and to the static thumbnailer
  otherwise; it writes to no file but the targets of the entries it takes. The target is
  the stem, \<open>_thumb\<close>, the dot and the extension, in the same folder, except for a name
  with nothing but dots before its last dot (such as \<open>.png\<close>), whose target is the whole
  name followed by \<open>_thumb\<close>.
\<close>

theorem orchestrator_stages_and_dispatch:
  "resize_images_in_folder E folder_path None w
     = resize_images_in_folder E folder_path (Some (25 / 100)) w
   \<and> resize_images_in_folder E folder_path (Some s) w =
       (let w1 = delete_thumb_files E folder_path w
        in if os_fails E (Listdir folder_path) (files w1)
           then (Inl (OSError (Listdir folder_path)), w1)
           else (let cw = catalog_loop E folder_path (map fst (files w1)) image_formats_init w1;
                     w3 = write_image_list E folder_path (fst cw) (snd cw)
                 in if os_fails E (Listdir folder_path) (files w3)
                    then (Inl (OSError (Listdir folder_path)), w3)
                    else (Inr (), thumb_loop E folder_path s (map fst (files w3)) w3)))
   \<and> (\<forall>r w'. resize_images_in_folder E folder_path (Some s) w = (r, w') \<longrightarrow>
         (\<exists>m1 m2 m3 m4. console w' = console w @ m1 @ m2 @ m3 @ m4
            \<and> list_all cleanup_message m1 \<and> list_all catalog_message m2
            \<and> list_all manifest_message m3 \<and> list_all thumbnail_message m4))
   \<and> (recognized filename \<longleftrightarrow>
         (\<exists>stem e. filename = stem @ ''.'' @ e \<and> lower e \<in> set formats))
   \<and> (endswith (lower filename) ''.gif'' \<longleftrightarrow>
         (\<exists>stem e. filename = stem @ ''.'' @ e \<and> lower e = ''gif''))
   \<and> thumb_loop E folder_path s (xs @ filename # ys) w
       = thumb_loop E folder_path s ys
           (thumb_loop E folder_path s [filename] (thumb_loop E folder_path s xs w))
   \<and> thumb_loop E folder_path s [filename] w =
       (if \<not> recognized filename then w
        else if endswith (lower filename) ''.gif''
        then resize_gif E (folder_path, filename) (folder_path, thumb_name filename) s w
        else (case resize_static E (folder_path, filename) (folder_path, thumb_name filename) s w of
                (Inl e, w') \<Rightarrow> py_print (Error_resizing_image filename e) w'
              | (Inr u, w') \<Rightarrow> w'))
   \<and> (\<forall>n. n \<notin> thumb_name ` {m \<in> set names. recognized m} \<longrightarrow>
         map_of (files (thumb_loop E folder_path s names w)) n = map_of (files w) n)
   \<and> (\<forall>stem e. filename = stem @ ''.'' @ e \<and> CHR ''.'' \<notin> set e \<longrightarrow>
         thumb_name filename =
           (if list_ex (\<lambda>c. c \<noteq> CHR ''.'') stem then stem @ ''_thumb'' @ ''.'' @ e
            else filename @ ''_thumb''))"
proof (intro conjI allI impI)
  show "resize_images_in_folder E folder_path None w
     = resize_images_in_folder E folder_path (Some (25 / 100)) w"
    by (rule resize_images_in_folder_default)
  show "resize_images_in_folder E folder_path (Some s) w =
       (let w1 = delete_thumb_files E folder_path w
        in if os_fails E (Listdir folder_path) (files w1)
           then (Inl (OSError (Listdir folder_path)), w1)
           else (let cw = catalog_loop E folder_path (map fst (files w1)) image_formats_init w1;
                     w3 = write_image_list E folder_path (fst cw) (snd cw)
                 in if os_fails E (Listdir folder_path) (files w3)
                    then (Inl (OSError (Listdir folder_path)), w3)
                    else (Inr (), thumb_loop E folder_path s (map fst (files w3)) w3)))"
    by (rule resize_images_in_folder_staged)
  show "recognized filename \<longleftrightarrow>
         (\<exists>stem e. filename = stem @ ''.'' @ e \<and> lower e \<in> set formats)"
    by (rule recognized_iff)
  show "endswith (lower filename) ''.gif'' \<longleftrightarrow>
         (\<exists>stem e. filename = stem @ ''.'' @ e \<and> lower e = ''gif'')"
    by (rule gif_iff)
  show "thumb_loop E folder_path s (xs @ filename # ys) w
       = thumb_loop E folder_path s ys
           (thumb_loop E folder_path s [filename] (thumb_loop E folder_path s xs w))"
    using thumb_loop_append [of E folder_path s xs "filename # ys" w]
      thumb_loop_append [of E folder_path s "[filename]" ys "thumb_loop E folder_path s xs w"]
    by simp
  show "thumb_loop E folder_path s [filename] w =
       (if \<not> recognized filename then w
        else if endswith (lower filename) ''.gif''
        then resize_gif E (folder_path, filename) (folder_path, thumb_name filename) s w
        else (case resize_static E (folder_path, filename) (folder_path, thumb_name filename) s w of
                (Inl e, w') \<Rightarrow> py_print (Error_resizing_image filename e) w'
              | (Inr u, w') \<Rightarrow> w'))"
    by (rule thumb_loop_entry)
next
  fix r w'
  assume "resize_images_in_folder E folder_path (Some s) w = (r, w')"
  then show "\<exists>m1 m2 m3 m4. console w' = console w @ m1 @ m2 @ m3 @ m4
            \<and> list_all cleanup_message m1 \<and> list_all catalog_message m2
            \<and> list_all manifest_message m3 \<and> list_all thumbnail_message m4"
    by (rule resize_images_in_folder_console)
next
  fix n
  assume "n \<notin> thumb_name ` {m \<in> set names. recognized m}"
  then show "map_of (files (thumb_loop E folder_path s names w)) n = map_of (files w) n"
    by (rule thumb_loop_targets)
next
  fix stem e
  assume "filename = stem @ ''.'' @ e \<and> CHR ''.'' \<notin> set e"
  then show "thumb_name filename =
           (if list_ex (\<lambda>c. c \<noteq> CHR ''.'') stem then stem @ ''_thumb'' @ ''.'' @ e
            else filename @ ''_thumb'')"
    using thumb_name_split by blast
qed

text \<open>
  Claim C9 as worded gives every recognized entry the target \<open>name-without-ext + '_thumb' +
  ext\<close>. The entry \<open>.png\<close> ends in \<open>.png\<close> and is taken by the pass, but
  \<open>os.path.splitext\<close> finds no extension in it: its target is \<open>.png_thumb\<close>, not
  \<open>_thumb.png\<close>.
\<close>

theorem hidden_name_thumbnail_target:
  "recognized ''.png'' \<and> endswith (lower ''.png'') ''.png''
   \<and> thumb_name ''.png'' = ''.png_thumb'' \<and> thumb_name ''.png'' \<noteq> ''_thumb.png''"
  by code_simp

theorem orchestrator_stages_and_dispatch_witness:
  "resize_images_in_folder env_ok ''D'' (Some (25 / 100)) sample_folder = (Inr (), sample_folder_done)
   \<and> (\<exists>m1 m2 m3 m4. console sample_folder_done = console sample_folder @ m1 @ m2 @ m3 @ m4
          \<and> list_all cleanup_message m1 \<and> list_all catalog_message m2
          \<and> list_all manifest_message m3 \<and> list_all thumbnail_message m4)
   \<and> recognized ''a1.JPG'' \<and> thumb_name ''a1.JPG'' = ''a1_thumb.JPG''
   \<and> recognized ''clip.gif'' \<and> endswith (lower ''clip.gif'') ''.gif''
   \<and> \<not> recognized ''notesold.txt''"
proof -
  note T = orchestrator_stages_and_dispatch [where E = env_ok and folder_path = "''D''"
      and w = sample_folder and s = "25 / 100" and xs = "[]" and ys = "[]" and names = "[]"]
  have dflt: "resize_images_in_folder env_ok ''D'' None sample_folder
      = resize_images_in_folder env_ok ''D'' (Some (25 / 100)) sample_folder"
    using T [where filename = "[]"] by (rule conjunct1)
  have run: "resize_images_in_folder env_ok ''D'' (Some (25 / 100)) sample_folder
      = (Inr (), sample_folder_done)"
    using dflt sample_run by simp
  have cons: "\<forall>r w'. resize_images_in_folder env_ok ''D'' (Some (25 / 100)) sample_folder = (r, w') \<longrightarrow>
         (\<exists>m1 m2 m3 m4. console w' = console sample_folder @ m1 @ m2 @ m3 @ m4
            \<and> list_all cleanup_message m1 \<and> list_all catalog_message m2
            \<and> list_all manifest_message m3 \<and> list_all thumbnail_message m4)"
    using T [where filename = "[]"] by (elim conjE)
  have rec: "recognized n \<longleftrightarrow> (\<exists>stem e. n = stem @ ''.'' @ e \<and> lower e \<in> set formats)" for n
    using T [where filename = n] by (elim conjE)
  have gif: "endswith (lower n) ''.gif'' \<longleftrightarrow> (\<exists>stem e. n = stem @ ''.'' @ e \<and> lower e = ''gif'')"
    for n
    using T [where filename = n] by (elim conjE)
  have tgt: "\<forall>stem e. ''a1.JPG'' = stem @ ''.'' @ e \<and> CHR ''.'' \<notin> set e \<longrightarrow>
         thumb_name ''a1.JPG'' =
           (if list_ex (\<lambda>c. c \<noteq> CHR ''.'') stem then stem @ ''_thumb'' @ ''.'' @ e
            else ''a1.JPG'' @ ''_thumb'')"
    using T [where filename = "''a1.JPG''"] by (elim conjE)
  have a: "recognized ''a1.JPG''"
  proof -
    have "''a1.JPG'' = ''a1'' @ ''.'' @ ''JPG'' \<and> lower ''JPG'' \<in> set formats" by code_simp
    then show ?thesis unfolding rec by blast
  qed
  have b: "thumb_name ''a1.JPG'' = ''a1_thumb.JPG''"
    using tgt [rule_format, of "''a1''" "''JPG''"] by simp
  have c: "recognized ''clip.gif''"
  proof -
    have "''clip.gif'' = ''clip'' @ ''.'' @ ''gif'' \<and> lower ''gif'' \<in> set formats" by code_simp
    then show ?thesis unfolding rec by blast
  qed
  have d: "endswith (lower ''clip.gif'') ''.gif''"
  proof -
    have "''clip.gif'' = ''clip'' @ ''.'' @ ''gif'' \<and> lower ''gif'' = ''gif''" by code_simp
    then show ?thesis unfolding gif by blast
  qed
  have e: "\<not> recognized ''notesold.txt''" by code_simp
  from cons [rule_format, OF run] run a b c d e show ?thesis by blast
qed

section \<open>Entries without a dot in their name\<close>

lemma str_rfind_none: "c \<notin> set s \<Longrightarrow> str_rfind s c = None"
  by (induction s) auto

lemma dotless_extension:
  assumes "CHR ''.'' \<notin> set c"
  shows "py_last (str_split c (CHR ''.'')) = Inr c" and "extension_of c = lower c"
  using assms
  by (simp_all add: py_last_def str_split_no_sep str_rfind_none extension_of_def)

lemma dotless_not_recognized:
  assumes "CHR ''.'' \<notin> set filename"
  shows "\<not> recognized filename"
proof
  assume "recognized filename"
  from recognized_split [OF this] obtain stem e where "filename = stem @ CHR ''.'' # e" by blast
  with assms show False by simp
qed

lemma clean_filename_dot: "CHR ''.'' \<in> set (clean_filename filename) \<longleftrightarrow> CHR ''.'' \<in> set filename"
  by (auto simp: clean_filename_filter)

lemma catalog_of_entry:
  "(fmt, l) \<in> set (catalog_of names) \<longleftrightarrow>
     fmt \<in> set formats \<and> l = filter (\<lambda>c. extension_of c = fmt) (map clean_filename names)"
  by (auto simp: catalog_of_def)

lemma manifest_text_section:
  assumes "(fmt, l) \<in> set cat"
  shows "\<exists>pre post. manifest_text cat = pre @ manifest_section fmt l @ post"
proof -
  from assms obtain as bs where "cat = as @ (fmt, l) # bs" by (auto dest: split_list)
  then have "manifest_text cat = manifest_text as @ manifest_section fmt l @ manifest_text bs"
    by (simp add: manifest_text_def)
  then show ?thesis by blast
qed

lemma manifest_section_line:
  assumes "c \<in> set l"
  shows "\<exists>pre post. manifest_section fmt l = pre @ (''- '' @ c @ newline) @ post"
proof -
  from assms obtain xs ys where "l = xs @ c # ys" by (auto dest: split_list)
  then have "manifest_section fmt l =
      (''Format: '' @ fmt @ newline @ concat (map (\<lambda>file. ''- '' @ file @ newline) xs))
        @ (''- '' @ c @ newline)
        @ (concat (map (\<lambda>file. ''- '' @ file @ newline) ys) @ newline)"
    by (simp add: manifest_section_def)
  then show ?thesis by blast
qed

lemma manifest_text_line:
  assumes "(fmt, l) \<in> set cat" and "c \<in> set l"
  shows "\<exists>pre post. manifest_text cat = pre @ (''- '' @ c @ newline) @ post"
proof -
  from manifest_text_section [OF assms(1)] obtain p1 q1 where
    a: "manifest_text cat = p1 @ manifest_section fmt l @ q1" by blast
  from manifest_section_line [OF assms(2), of fmt] obtain p2 q2 where
    b: "manifest_section fmt l = p2 @ (''- '' @ c @ newline) @ q2" by blast
  have "manifest_text cat = (p1 @ p2) @ (''- '' @ c @ newline) @ (q2 @ q1)"
    unfolding a b by simp
  then show ?thesis by blast
qed


lemma thumb_loop_skips:
  assumes "\<not> recognized n"
  shows "thumb_loop E folder_path s (xs @ n # ys) w = thumb_loop E folder_path s (xs @ ys) w"
proof -
  have "thumb_loop E folder_path s (n # ys) w' = thumb_loop E folder_path s ys w'" for w'
    using assms by simp
  then show ?thesis by (simp add: thumb_loop_append)
qed

lemma catalog_loop_processed:
  "fst (catalog_loop E folder_path (map fst (files w)) image_formats_init w)
     = catalog_of (processed_entries E folder_path (map fst (files w)) (files w))"
proof -
  from catalog_loop_run [of E folder_path "map fst (files w)" image_formats_init w]
  obtain w' where
    "catalog_loop E folder_path (map fst (files w)) image_formats_init w
       = (foldl cat_add image_formats_init
            (map clean_filename (processed_entries E folder_path (map fst (files w)) (files w))), w')"
    by blast
  then show ?thesis unfolding foldl_cat_add_init by simp
qed

text \<open>
  Claim C10, as amended. For a listed entry whose cleaned name \<open>c\<close> holds no dot, the
  extension computation does not raise and yields all of \<open>c\<close>, lower-cased. So, in every
  environment, \<open>c\<close> stands in the catalog, under the format that \<open>c\<close> lower-cased names and
  under no other, exactly when \<open>c\<close> lower-cased is png, jpg, jpeg or gif and an entry with
  that cleaned name was not skipped for a failed rename; an entry that needs no rename is
  never skipped. After a completed run whose manifest write did not fail, a cataloged
  \<open>c\<close> has its line in \<open>image_list.txt\<close>. Any other dot-less name is cataloged nowhere. The
  thumbnail pass never takes such an entry, under either of its names.
\<close>

theorem dotless_entries:
  assumes "CHR ''.'' \<notin> set (clean_filename filename)"
  shows "(let c = clean_filename filename
          in py_last (str_split c (CHR ''.'')) = Inr c
           \<and> extension_of c = lower c
           \<and> (\<forall>E folder_path w fmt l.
                 (fmt, l) \<in> set (fst (catalog_loop E folder_path (map fst (files w))
                                        image_formats_init w))
                 \<longrightarrow> fmt \<in> set formats
                   \<and> (c \<in> set l \<longleftrightarrow>
                        fmt = lower c
                        \<and> c \<in> clean_filename `
                              set (processed_entries E folder_path (map fst (files w)) (files w)))
                   \<and> (lower c \<notin> set formats \<longrightarrow> c \<notin> set l))
           \<and> (\<forall>E folder_path names fs.
                 filename \<in> set names \<and> c = filename
                 \<longrightarrow> filename \<in> set (processed_entries E folder_path names fs))
           \<and> (\<forall>E folder_path xs ys fs.
                 distinct (xs @ filename # ys)
                 \<longrightarrow> (filename \<in> set (processed_entries E folder_path (xs @ filename # ys) fs)
                        \<longleftrightarrow> \<not> rename_fails E folder_path filename
                                  (renamed_folder E folder_path xs fs)))
           \<and> (\<forall>E folder_path scale_arg w w'.
                 resize_images_in_folder E folder_path scale_arg w = (Inr (), w')
                 \<and> (\<forall>e. Error_writing_image_list e \<notin> set (console w'))
                 \<and> lower c \<in> set formats
                 \<and> c \<in> clean_filename `
                       set (processed_entries E folder_path
                              (map fst (files (delete_thumb_files E folder_path w)))
                              (files (delete_thumb_files E folder_path w)))
                 \<longrightarrow> (\<exists>pre post. map_of (files w') ''image_list.txt''
                                     = Some (Text (pre @ (''- '' @ c @ newline) @ post))))
           \<and> \<not> recognized filename \<and> \<not> recognized c
           \<and> (\<forall>E folder_path s xs ys w.
                 thumb_loop E folder_path s (xs @ filename # ys) w
                   = thumb_loop E folder_path s (xs @ ys) w
                 \<and> thumb_loop E folder_path s (xs @ c # ys) w
                   = thumb_loop E folder_path s (xs @ ys) w))"
proof -
  let ?c = "clean_filename filename"
  have last: "py_last (str_split ?c (CHR ''.'')) = Inr ?c"
    using assms by (rule dotless_extension)
  have ext: "extension_of ?c = lower ?c"
    using assms by (rule dotless_extension)
  have cat: "\<forall>E folder_path w fmt l.
      (fmt, l) \<in> set (fst (catalog_loop E folder_path (map fst (files w)) image_formats_init w))
      \<longrightarrow> fmt \<in> set formats
        \<and> (?c \<in> set l \<longleftrightarrow>
             fmt = lower ?c
             \<and> ?c \<in> clean_filename `
                   set (processed_entries E folder_path (map fst (files w)) (files w)))
        \<and> (lower ?c \<notin> set formats \<longrightarrow> ?c \<notin> set l)"
    unfolding catalog_loop_processed catalog_of_entry using ext by auto
  have turn: "\<forall>E folder_path xs ys fs.
      distinct (xs @ filename # ys)
      \<longrightarrow> (filename \<in> set (processed_entries E folder_path (xs @ filename # ys) fs)
             \<longleftrightarrow> \<not> rename_fails E folder_path filename (renamed_folder E folder_path xs fs))"
    using processed_at_turn by blast
  have own: "\<forall>E folder_path names fs.
      filename \<in> set names \<and> ?c = filename
      \<longrightarrow> filename \<in> set (processed_entries E folder_path names fs)"
    using processed_clean by auto
  have man: "\<forall>E folder_path scale_arg w w'.
      resize_images_in_folder E folder_path scale_arg w = (Inr (), w')
      \<and> (\<forall>e. Error_writing_image_list e \<notin> set (console w'))
      \<and> lower ?c \<in> set formats
      \<and> ?c \<in> clean_filename `
            set (processed_entries E folder_path
                   (map fst (files (delete_thumb_files E folder_path w)))
                   (files (delete_thumb_files E folder_path w)))
      \<longrightarrow> (\<exists>pre post. map_of (files w') ''image_list.txt''
                          = Some (Text (pre @ (''- '' @ ?c @ newline) @ post)))"
  proof (intro allI impI)
    fix E folder_path scale_arg w w'
    let ?w1 = "delete_thumb_files E folder_path w"
    let ?P = "processed_entries E folder_path (map fst (files ?w1)) (files ?w1)"
    assume a: "resize_images_in_folder E folder_path scale_arg w = (Inr (), w')
      \<and> (\<forall>e. Error_writing_image_list e \<notin> set (console w'))
      \<and> lower ?c \<in> set formats
      \<and> ?c \<in> clean_filename ` set ?P"
    then have "map_of (files w') ''image_list.txt'' = Some (Text (manifest_text (catalog_of ?P)))"
      using manifest_written [of E folder_path scale_arg w w']
      by (simp add: catalog_loop_processed)
    moreover have "(lower ?c, filter (\<lambda>x. extension_of x = lower ?c) (map clean_filename ?P))
        \<in> set (catalog_of ?P)"
      using a by (simp add: catalog_of_entry)
    moreover have "?c \<in> set (filter (\<lambda>x. extension_of x = lower ?c) (map clean_filename ?P))"
      using a ext by simp
    ultimately show "\<exists>pre post. map_of (files w') ''image_list.txt''
                          = Some (Text (pre @ (''- '' @ ?c @ newline) @ post))"
      using manifest_text_line by metis
  qed
  have nodot: "CHR ''.'' \<notin> set filename"
    using assms by (simp add: clean_filename_dot)
  have nr: "\<not> recognized filename" "\<not> recognized ?c"
    using nodot assms by (auto dest: dotless_not_recognized)
  have skip: "\<forall>E folder_path s xs ys w.
      thumb_loop E folder_path s (xs @ filename # ys) w = thumb_loop E folder_path s (xs @ ys) w
      \<and> thumb_loop E folder_path s (xs @ ?c # ys) w = thumb_loop E folder_path s (xs @ ys) w"
    using nr thumb_loop_skips by blast
  show ?thesis
    unfolding Let_def using last ext cat own turn man nr skip by blast
qed


text \<open>
  Claim C10 as worded lets, among the dot-less names, exactly the files named \<open>png\<close>,
  \<open>jpg\<close>, \<open>jpeg\<close> and \<open>gif\<close> be cataloged and has them appear in the manifest. The
  extension is lower-cased before the lookup, so \<open>PNG\<close> is cataloged under png. The entry
  \<open>p n g\<close> is cataloged as \<open>png\<close> when its rename succeeds and nowhere when it fails.
  Where the manifest cannot be opened, \<open>png\<close> is cataloged and no manifest holds it.
\<close>

theorem dotless_names_cataloged_by_case_and_rename:
  "fst (catalog_loop env_ok ''D'' (map fst (files dotless_folder)) image_formats_init
          dotless_folder)
     = [(''png'', [''PNG'']), (''jpg'', []), (''jpeg'', []), (''gif'', [])]
   \<and> fst (catalog_loop env_ok ''D'' (map fst (files p_n_g_folder)) image_formats_init
            p_n_g_folder)
     = [(''png'', [''png'']), (''jpg'', []), (''jpeg'', []), (''gif'', [])]
   \<and> fst (catalog_loop env_norename ''D'' (map fst (files p_n_g_folder)) image_formats_init
            p_n_g_folder)
     = [(''png'', []), (''jpg'', []), (''jpeg'', []), (''gif'', [])]
   \<and> fst (catalog_loop env_readonly ''D'' (map fst (files png_folder)) image_formats_init
            png_folder)
     = [(''png'', [''png'']), (''jpg'', []), (''jpeg'', []), (''gif'', [])]
   \<and> resize_images_in_folder env_readonly ''D'' None png_folder
     = (Inr (), png_folder\<lparr>console :=
          [Error_writing_image_list (OSError (Open_w (''D'', ''image_list.txt'')))]\<rparr>)
   \<and> map_of (files png_folder) ''image_list.txt'' = None"
  by code_simp

theorem dotless_entries_witness:
  "py_last (str_split ''PNG'' (CHR ''.'')) = Inr ''PNG''
   \<and> ''PNG'' \<in> set (processed_entries env_norename ''D'' (map fst (files dotless_folder))
                       (files dotless_folder))
   \<and> \<not> recognized ''PNG''"
proof -
  have c: "clean_filename ''PNG'' = ''PNG''" by (simp add: clean_filename_filter)
  have nodot: "CHR ''.'' \<notin> set (clean_filename ''PNG'')" unfolding c by simp
  have listed: "''PNG'' \<in> set (map fst (files dotless_folder))" by (simp add: dotless_folder_def)
  note fact = dotless_entries [OF nodot, unfolded Let_def c]
  have one: "py_last (str_split ''PNG'' (CHR ''.'')) = Inr ''PNG''"
    using fact by (rule conjunct1)
  have own: "\<forall>E folder_path names fs.
      ''PNG'' \<in> set names \<and> ''PNG'' = ''PNG''
      \<longrightarrow> ''PNG'' \<in> set (processed_entries E folder_path names fs)"
    using fact by (elim conjE)
  have two: "''PNG'' \<in> set (processed_entries env_norename ''D'' (map fst (files dotless_folder))
                       (files dotless_folder))"
    using own listed by blast
  have three: "\<not> recognized ''PNG''"
    using fact by (elim conjE)
  from one two three show ?thesis by blast
qed

section \<open>Further properties\<close>

text \<open>
  The only error that \<open>resize_images_in_folder\<close> raises to its caller is the failure of one
  of its own two directory listings: every other failure ends in a printed line.
\<close>

theorem only_listing_errors_reach_caller:
  "resize_images_in_folder E folder_path scale_arg w = (Inl e, w') \<Longrightarrow>
   e = OSError (Listdir folder_path)"
  by (cases scale_arg)
     (auto simp: resize_images_in_folder_default resize_images_in_folder_staged Let_def
        split: if_splits)

theorem only_listing_errors_reach_caller_witness:
  "resize_images_in_folder env_unlistable ''D'' None empty_folder
     = (Inl (OSError (Listdir ''D'')),
        \<lparr>files = [], console = [Error_deleting_files (OSError (Listdir ''D''))]\<rparr>)"
proof -
  have run: "resize_images_in_folder env_unlistable ''D'' None empty_folder
     = (Inl (OSError (Listdir ''D'')),
        \<lparr>files = [], console = [Error_deleting_files (OSError (Listdir ''D''))]\<rparr>)"
    by (simp add: resize_images_in_folder_def delete_thumb_files_def try_except_def seq_def
        os_listdir_def env_unlistable_def empty_folder_def py_print_def)
  from only_listing_errors_reach_caller [OF run] run show ?thesis by simp
qed

lemma frames_loop_fetch_failure:
  assumes "j < length reader" and "os_fails E (Reader_next p (i + j)) (files w)"
  shows "\<exists>e w'. frames_loop E p s i reader acc w = (Inl e, w')"
  using assms
proof (induction reader arbitrary: i j acc w)
  case Nil
  then show ?case by simp
next
  case (Cons frame rest)
  show ?case
  proof (cases "os_fails E (Reader_next p i) (files w)")
    case True
    then show ?thesis by simp
  next
    case False
    with Cons.prems obtain k where k: "j = Suc k" by (cases j) auto
    with Cons.prems have kl: "k < length rest" by simp
    show ?thesis
    proof (cases "process_frame E frame s")
      case (Inl e)
      have "os_fails E (Reader_next p (Suc i + k)) (files (py_print (Error_processing_frame e) w))"
        using Cons.prems k by simp
      from Cons.IH [OF kl this] False Inl show ?thesis by simp
    next
      case (Inr img)
      have "os_fails E (Reader_next p (Suc i + k)) (files w)"
        using Cons.prems k by simp
      from Cons.IH [OF kl this] False Inr show ?thesis by simp
    qed
  qed
qed

text \<open>
  When the reader fails while it fetches a frame, \<open>resize_gif\<close> writes nothing: the failure
  leaves the \<open>for\<close> statement outside the inner \<open>try\<close>, the folder stays as it was and
  the error is printed for the whole file.
\<close>

theorem resize_gif_reader_failure:
  assumes "get_reader E p w = (Inr reader, w1)"
    and "j < length reader" and "os_fails E (Reader_next p j) (files w)"
  shows "files (resize_gif E p q s w) = files w
       \<and> (\<exists>e. Error_resizing_GIF p e \<in> set (console (resize_gif E p q s w)))"
proof -
  have w1: "w1 = w" using assms(1) by (rule get_reader_world)
  from frames_loop_fetch_failure [of j reader E p 0 w s "[]"] assms(2,3)
  obtain e w2 where loop: "frames_loop E p s 0 reader [] w = (Inl e, w2)" by auto
  from frames_loop_world [OF loop] have "files w2 = files w" by simp
  then show ?thesis
    using assms(1) w1 loop by (auto simp: resize_gif_def try_except_def seq_def)
qed


theorem resize_gif_reader_failure_witness:
  "files (resize_gif env_truncated (''D'', ''clip.gif'') (''D'', ''clip_thumb.gif'') (1 / 4) sample_gifs)
     = files sample_gifs
   \<and> map_of (files sample_gifs) ''clip_thumb.gif'' = None"
proof -
  have rd: "get_reader env_truncated (''D'', ''clip.gif'') sample_gifs
      = (Inr [Ndarray (PIL_Image 8 4 ''P'' 3), Ndarray (PIL_Image 8 4 ''P'' 2),
              Ndarray (PIL_Image 8 4 ''P'' 4)], sample_gifs)"
    by (simp add: get_reader_def sample_gifs_def decode_frames_def env_truncated_def)
  have len: "1 < length [Ndarray (PIL_Image 8 4 ''P'' 3), Ndarray (PIL_Image 8 4 ''P'' 2),
                        Ndarray (PIL_Image 8 4 ''P'' 4)]"
    by simp
  have bad: "os_fails env_truncated (Reader_next (''D'', ''clip.gif'') 1) (files sample_gifs)"
    by (simp add: env_truncated_def)
  have none: "map_of (files sample_gifs) ''clip_thumb.gif'' = None"
    by (simp add: sample_gifs_def)
  from resize_gif_reader_failure [OF rd len bad, of "(''D'', ''clip_thumb.gif'')" "1 / 4"] none
  show ?thesis by simp
qed

lemma delete_loop_ok:
  assumes "\<forall>p fs. \<not> os_fails E (Remove p) fs"
    and "distinct names" and "set names \<subseteq> fst ` set (files w)"
  shows "\<exists>w'. delete_loop E folder_path names w = (Inr (), w')
           \<and> files w' = filter (\<lambda>(n, c). \<not> (n \<in> set names \<and> str_contains n ''_thumb'')) (files w)"
  using assms(2,3)
proof (induction names arbitrary: w)
  case Nil
  then show ?case by simp
next
  case (Cons n ns)
  have d: "distinct ns" and n_out: "n \<notin> set ns" using Cons.prems by auto
  show ?case
  proof (cases "str_contains n ''_thumb''")
    case False
    have "set ns \<subseteq> fst ` set (files w)" using Cons.prems by simp
    from Cons.IH [OF d this] obtain w' where
      "delete_loop E folder_path ns w = (Inr (), w')"
      and f: "files w' = filter (\<lambda>(k, c). \<not> (k \<in> set ns \<and> str_contains k ''_thumb'')) (files w)"
      by blast
    moreover have "filter (\<lambda>(k, c). \<not> (k \<in> set ns \<and> str_contains k ''_thumb'')) (files w)
        = filter (\<lambda>(k, c). \<not> (k \<in> set (n # ns) \<and> str_contains k ''_thumb'')) (files w)"
      using False by (intro filter_cong) auto
    ultimately show ?thesis using False by simp
  next
    case True
    let ?w1 = "w\<lparr>files := AList.delete n (files w)\<rparr>"
    have ex: "map_of (files w) n \<noteq> None"
      using Cons.prems by (simp add: map_of_eq_None_iff)
    have ok: "\<not> os_fails E (Remove (folder_path, n)) (files w)"
      using assms(1) by blast
    have rm: "os_remove E (os_path_join folder_path n) w = (Inr (), ?w1)"
      using ex ok by (auto simp: os_remove_def os_path_join_def)
    have "set ns \<subseteq> fst ` set (files (py_print (Deleted (os_path_join folder_path n)) ?w1))"
      using Cons.prems n_out by (auto simp: AList.delete_eq image_iff) force
    from Cons.IH [OF d this] obtain w' where
      run: "delete_loop E folder_path ns (py_print (Deleted (os_path_join folder_path n)) ?w1)
              = (Inr (), w')"
      and f: "files w' = filter (\<lambda>(k, c). \<not> (k \<in> set ns \<and> str_contains k ''_thumb''))
                           (AList.delete n (files w))"
      by auto
    have "filter (\<lambda>(k, c). \<not> (k \<in> set ns \<and> str_contains k ''_thumb'')) (AList.delete n (files w))
        = filter (\<lambda>(k, c). \<not> (k \<in> set (n # ns) \<and> str_contains k ''_thumb'')) (files w)"
      using True unfolding AList.delete_eq filter_filter by (intro filter_cong) auto
    with run f rm True show ?thesis by (simp add: Let_def)
  qed
qed

text \<open>
  When the listing and no removal fails, the cleanup removes exactly the entries whose name
  contains \<open>_thumb\<close> and keeps the others in their order.
\<close>

theorem cleanup_removes_thumbs:
  assumes "\<not> os_fails E (Listdir folder_path) (files w)"
    and "\<forall>p fs. \<not> os_fails E (Remove p) fs"
    and "distinct (map fst (files w))"
  shows "files (delete_thumb_files E folder_path w)
           = filter (\<lambda>(n, c). \<not> str_contains n ''_thumb'') (files w)"
proof -
  have "set (map fst (files w)) \<subseteq> fst ` set (files w)" by simp
  from delete_loop_ok [OF assms(2) assms(3) this, of folder_path] obtain w' where
    run: "delete_loop E folder_path (map fst (files w)) w = (Inr (), w')"
    and f: "files w' = filter (\<lambda>(n, c). \<not> (n \<in> set (map fst (files w)) \<and> str_contains n ''_thumb''))
                         (files w)"
    by blast
  have "filter (\<lambda>(n, c). \<not> (n \<in> set (map fst (files w)) \<and> str_contains n ''_thumb'')) (files w)
      = filter (\<lambda>(n, c). \<not> str_contains n ''_thumb'') (files w)"
    by (intro filter_cong) force+
  with f have "files w' = filter (\<lambda>(n, c). \<not> str_contains n ''_thumb'') (files w)" by simp
  then show ?thesis
    using assms(1) run by (simp add: delete_thumb_files_def try_except_def seq_def os_listdir_def)
qed

theorem cleanup_removes_thumbs_witness:
  "map fst (files (delete_thumb_files env_ok ''D'' stale_folder)) = [''a.png'', ''a (1).JPG'']"
proof -
  have l: "\<not> os_fails env_ok (Listdir ''D'') (files stale_folder)" by (simp add: env_ok_def)
  have r: "\<forall>p fs. \<not> os_fails env_ok (Remove p) fs" by (simp add: env_ok_def)
  have d: "distinct (map fst (files stale_folder))" by (simp add: stale_folder_def)
  from cleanup_removes_thumbs [OF l r d] show ?thesis
    by (simp add: stale_folder_def)
qed

end
